theory Spec2Isabelle
  imports Complex_Main "HOL-Library.List_Lexorder"
begin

section \<open>Bounding-box geometry of \<open>validate_scenes.py\<close>\<close>

text \<open>
  The validator computes with Python floats (IEEE doubles). They are modelled as
  \<^typ>\<open>real\<close>: the comparisons and the arithmetic of the source are kept as written,
  in exact arithmetic. Rounding, overflow to infinity and not-a-number are outside this
  model, so the value of \<open>overlap_ratio\<close> here is the exact quotient where the program
  returns its rounded counterpart. The results on scanning, deduplication, steps and
  control flow below use \<open>overlap_ratio\<close>, \<open>is_oob\<close> and \<open>mob_label\<close> only through
  the values they return, whatever these are. A box is the source's tuple
  \<open>(l, r, b, t)\<close>.
\<close>

type_synonym bbox = "real \<times> real \<times> real \<times> real"

definition EDGE_TOL :: real where
  "EDGE_TOL = 0.05"

definition bbox_area :: "bbox \<Rightarrow> real" where
  "bbox_area bbox = (case bbox of (l, r, b, t) \<Rightarrow> max 0 (r - l) * max 0 (t - b))"

definition bbox_intersection :: "bbox \<Rightarrow> bbox \<Rightarrow> bbox option" where
  "bbox_intersection b1 b2 =
     (case b1 of (l1, r1, bo1, t1) \<Rightarrow> case b2 of (l2, r2, bo2, t2) \<Rightarrow>
        let l = max l1 l2; r = min r1 r2; b = max bo1 bo2; t = min t1 t2
        in if l < r \<and> b < t then Some (l, r, b, t) else None)"

definition overlap_ratio :: "bbox \<Rightarrow> bbox \<Rightarrow> real" where
  "overlap_ratio b1 b2 =
     (case bbox_intersection b1 b2 of
        None \<Rightarrow> 0
      | Some inter_box \<Rightarrow>
          let inter_area = bbox_area inter_box;
              min_area = min (bbox_area b1) (bbox_area b2)
          in if min_area < 1 / 1000000 then 0 else inter_area / min_area)"

text \<open>
  The area of the geometric intersection of two boxes and the area of the smaller box, in
  exact arithmetic, to compare \<^const>\<open>overlap_ratio\<close> with.
\<close>

definition intersection_area :: "bbox \<Rightarrow> bbox \<Rightarrow> real" where
  "intersection_area b1 b2 =
     (case b1 of (l1, r1, bo1, t1) \<Rightarrow> case b2 of (l2, r2, bo2, t2) \<Rightarrow>
        max 0 (min r1 r2 - max l1 l2) * max 0 (min t1 t2 - max bo1 bo2))"

definition smaller_area :: "bbox \<Rightarrow> bbox \<Rightarrow> real" where
  "smaller_area b1 b2 = min (bbox_area b1) (bbox_area b2)"

section \<open>Formatting and labels\<close>

text \<open>
  A Python string is the list of its Unicode code points (\<open>pystr\<close>): slicing and
  comparison of strings go by code points. \<open>py_str\<close> reads an ASCII text as such a
  string.
\<close>

type_synonym pystr = "nat list"

definition py_str :: "string \<Rightarrow> pystr" where
  "py_str s = map of_char s"

text \<open>
  Python's \<open>str(n)\<close> for a natural number, and the fixed-point format \<open>f"{x:.df}"\<close>:
  the value rounded to \<open>d\<close> decimals (ties to even), a minus sign for every negative
  argument. Both give ASCII text. \<open>digit_char\<close> is only applied to numbers below 10.
\<close>

definition digit_char :: "nat \<Rightarrow> char" where
  "digit_char n = ''0123456789'' ! n"

fun str_nat :: "nat \<Rightarrow> string" where
  "str_nat n = (if n < 10 then [digit_char n] else str_nat (n div 10) @ [digit_char (n mod 10)])"

declare str_nat.simps [simp del]

definition round_half_even :: "real \<Rightarrow> int" where
  "round_half_even x =
     (let f = \<lfloor>x\<rfloor>; d = x - of_int f
      in if d < 1 / 2 then f else if 1 / 2 < d then f + 1 else if even f then f else f + 1)"

definition fmt_f :: "nat \<Rightarrow> real \<Rightarrow> string" where
  "fmt_f d x =
     (let n = nat (round_half_even (\<bar>x\<bar> * 10 ^ d));
          frac = str_nat (n mod 10 ^ d)
      in (if x < 0 then ''-'' else '''') @ str_nat (n div 10 ^ d) @
         (if d = 0 then '''' else ''.'' @ replicate (d - length frac) (CHR ''0'') @ frac))"

text \<open>
  \<open>is_oob\<close>: the frame's half extents \<open>HALF_W\<close> and \<open>HALF_H\<close> come from the
  animation framework's configuration, so they are parameters here. Each violation is
  the string the source builds: the edge, the offending coordinate and the limit, both
  with two decimals.
\<close>

definition is_oob :: "real \<Rightarrow> real \<Rightarrow> bbox \<Rightarrow> pystr list" where
  "is_oob HALF_W HALF_H bbox =
     (case bbox of (l, r, b, t) \<Rightarrow>
        (if l < - HALF_W - EDGE_TOL
         then [py_str (''LEFT (x='' @ fmt_f 2 l @ '' < '' @ fmt_f 2 (- HALF_W) @ '')'')] else []) @
        (if r > HALF_W + EDGE_TOL
         then [py_str (''RIGHT (x='' @ fmt_f 2 r @ '' > '' @ fmt_f 2 HALF_W @ '')'')] else []) @
        (if b < - HALF_H - EDGE_TOL
         then [py_str (''BOTTOM (y='' @ fmt_f 2 b @ '' < '' @ fmt_f 2 (- HALF_H) @ '')'')] else []) @
        (if t > HALF_H + EDGE_TOL
         then [py_str (''TOP (y='' @ fmt_f 2 t @ '' > '' @ fmt_f 2 HALF_H @ '')'')] else []))"

text \<open>
  A scene-graph element as the validator reads it. \<open>mob_id\<close> is the identity of the
  Python object (\<open>is\<close>, and \<open>in\<close> on a list of elements, compare identities);
  \<open>cls\<close> is \<open>type(mob).__name__\<close>; \<open>is_text\<close> and \<open>is_vgroup\<close> are the two
  \<open>isinstance\<close> tests of \<open>mob_label\<close>; \<open>text_attr\<close> and \<open>original_text\<close> are the
  attributes \<open>text\<close> and \<open>original_text\<close> when the object has them;
  \<open>has_points\<close> is the result of \<open>mob.has_points()\<close>; \<open>corner_UL\<close> and
  \<open>corner_DR\<close> are the x and y of \<open>mob.get_corner(UL)\<close> and \<open>mob.get_corner(DR)\<close>,
  \<open>None\<close> when the query raises. Children are nested, so the graph is finite and
  acyclic.
\<close>

record mob_attrs =
  mob_id :: nat
  cls :: pystr
  is_text :: bool
  is_vgroup :: bool
  text_attr :: "pystr option"
  original_text :: "pystr option"
  has_points :: bool
  corner_UL :: "(real \<times> real) option"
  corner_DR :: "(real \<times> real) option"

datatype mob = Mob (attrs: mob_attrs) (submobjects: "mob list")

definition get_bbox :: "mob \<Rightarrow> bbox option" where
  "get_bbox mob =
     (if \<not> has_points (attrs mob) \<and> submobjects mob = [] then None
      else case corner_UL (attrs mob) of
        None \<Rightarrow> None
      | Some ul \<Rightarrow>
         (case corner_DR (attrs mob) of
            None \<Rightarrow> None
          | Some dr \<Rightarrow>
              let l = fst ul; r = fst dr; b = snd dr; t = snd ul
              in if r - l < 1 / 100000 \<or> t - b < 1 / 100000 then None
                 else Some (l, r, b, t)))"

definition dquote :: string where
  "dquote = [char_of (34 :: nat)]"

fun first_text_child :: "mob list \<Rightarrow> mob option" where
  "first_text_child [] = None"
| "first_text_child (sub # subs) =
     (if is_text (attrs sub) then Some sub else first_text_child subs)"

definition mob_label :: "mob \<Rightarrow> pystr" where
  "mob_label mob =
     (let a = attrs mob in
      if is_text a then
        let txt = (case text_attr a of Some s \<Rightarrow> s
                   | None \<Rightarrow> (case original_text a of Some s \<Rightarrow> s | None \<Rightarrow> []))
        in cls a @ py_str (''('' @ dquote) @ take 25 txt @ py_str (dquote @ '')'')
      else if is_vgroup a then
        (case first_text_child (take 3 (submobjects mob)) of
           Some sub \<Rightarrow>
             let txt = (case text_attr (attrs sub) of Some s \<Rightarrow> s | None \<Rightarrow> [])
             in cls a @ py_str (''['' @ dquote) @ take 20 txt @ py_str (dquote @ '',...]'')
         | None \<Rightarrow> cls a @ py_str (''('' @ str_nat (length (submobjects mob)) @ '' sub)''))
      else cls a)"

section \<open>Ancestor relation\<close>

text \<open>
  \<open>SceneValidator._is_ancestor\<close>. Every element has a \<open>submobjects\<close> list, so the
  \<open>hasattr\<close> test of the source always succeeds.
\<close>

fun is_ancestor :: "mob \<Rightarrow> mob \<Rightarrow> bool" where
  "is_ancestor (Mob a subs) mob =
     list_ex (\<lambda>sub. mob_id (attrs sub) = mob_id (attrs mob) \<or> is_ancestor sub mob) subs"

text \<open>The child relation of the scene graph, for the specification's reachability.\<close>

definition child_rel :: "(mob \<times> mob) set" where
  "child_rel = {(p, c). c \<in> set (submobjects p)}"

section \<open>Issue tracker\<close>

datatype severity = ERROR | WARN

text \<open>
  The message of an issue keeps the values the source's f-string renders: for an
  out-of-bounds finding the label, the box and the violations; for an overlap the ratio
  and the two labels; for a failed \<open>construct()\<close> the exception text.
\<close>

datatype message =
    OOB_msg pystr bbox "pystr list"
  | OVERLAP_msg real pystr pystr
  | CONSTRUCT_msg pystr

type_synonym issue = "severity \<times> pystr \<times> nat \<times> message"

definition add_issue :: "severity \<Rightarrow> pystr \<Rightarrow> nat \<Rightarrow> message \<Rightarrow> issue list \<Rightarrow> issue list" where
  "add_issue sev scene step_no msg issues = issues @ [(sev, scene, step_no, msg)]"

text \<open>\<open>IssueTracker.report\<close>: the value returned; the printed report is not modelled.\<close>

definition report :: "issue list \<Rightarrow> bool" where
  "report issues = (if issues = [] then True else False)"

section \<open>Frame scanner\<close>

text \<open>
  The validator object. \<open>tracker\<close> is the content of the shared \<open>IssueTracker\<close> the
  validator holds a reference to.
\<close>

record validator =
  scene_name :: pystr
  overlap_threshold :: real
  verbose :: bool
  step :: nat
  reported_overlaps :: "pystr list set"
  reported_oob :: "(pystr \<times> pystr list) set"
  tracker :: "issue list"

definition mobs_with_bbox :: "mob list \<Rightarrow> (mob \<times> bbox) list" where
  "mobs_with_bbox mobs =
     concat (map (\<lambda>mob. case get_bbox mob of None \<Rightarrow> [] | Some bbox \<Rightarrow> [(mob, bbox)]) mobs)"

definition oob_check :: "real \<Rightarrow> real \<Rightarrow> mob \<times> bbox \<Rightarrow> validator \<Rightarrow> validator" where
  "oob_check HALF_W HALF_H mb v =
     (case mb of (mob, bbox) \<Rightarrow>
        let violations = is_oob HALF_W HALF_H bbox
        in if violations \<noteq> [] then
             let label = mob_label mob; key = (label, violations)
             in if key \<notin> reported_oob v then
                  v\<lparr>reported_oob := insert key (reported_oob v),
                    tracker := add_issue ERROR (scene_name v) (step v)
                                 (OOB_msg label bbox violations) (tracker v)\<rparr>
                else v
           else v)"

definition overlap_check :: "mob \<times> bbox \<Rightarrow> mob \<times> bbox \<Rightarrow> validator \<Rightarrow> validator" where
  "overlap_check mi mj v =
     (case mi of (mob_i, bbox_i) \<Rightarrow> case mj of (mob_j, bbox_j) \<Rightarrow>
        if is_ancestor mob_i mob_j \<or> is_ancestor mob_j mob_i then v
        else
          let ratio = overlap_ratio bbox_i bbox_j
          in if ratio > overlap_threshold v then
               let l1 = mob_label mob_i; l2 = mob_label mob_j; key = sort [l1, l2]
               in if key \<notin> reported_overlaps v then
                    v\<lparr>reported_overlaps := insert key (reported_overlaps v),
                      tracker := add_issue (if ratio > 0.6 then ERROR else WARN)
                                   (scene_name v) (step v) (OVERLAP_msg ratio l1 l2) (tracker v)\<rparr>
                  else v
             else v)"

text \<open>
  The overlap pass: the two nested index loops take every entry against every later
  entry, in order. \<open>check_frame_mobs\<close> is the body of \<open>_check_frame\<close> on the list
  \<open>scene.mobjects\<close>; the dump of the final frame under \<open>verbose\<close> is console
  output and not modelled.
\<close>

fun overlap_pass :: "(mob \<times> bbox) list \<Rightarrow> validator \<Rightarrow> validator" where
  "overlap_pass [] v = v"
| "overlap_pass (mi # rest) v = overlap_pass rest (fold (overlap_check mi) rest v)"

definition check_frame_mobs :: "real \<Rightarrow> real \<Rightarrow> mob list \<Rightarrow> validator \<Rightarrow> validator" where
  "check_frame_mobs HALF_W HALF_H mobs v =
     (let mwb = mobs_with_bbox mobs
      in overlap_pass mwb (fold (oob_check HALF_W HALF_H) mwb v))"

section \<open>Animation interceptor and validation run\<close>

text \<open>
  The animation framework is external. Its state (the scene instance and every object
  reachable from it) is a type parameter \<open>'w\<close>, and what the validator uses of the
  framework is a record of parameters: the frame's half extents, \<open>scene.mobjects\<close> read
  as a list of elements, and \<open>scene.add(mob)\<close> for the element of a given identity.
\<close>

record 'w framework =
  HALF_W :: real
  HALF_H :: real
  mobjects :: "'w \<Rightarrow> mob list"
  scene_add :: "nat \<Rightarrow> 'w \<Rightarrow> 'w"

text \<open>
  A lifecycle stage of an animation either returns or raises an exception with a text;
  both leave a state behind. \<open>mobject\<close> is the identity of the animation's target,
  \<open>None\<close> for Python's \<open>None\<close>.
\<close>

datatype 'w outcome = Done 'w | Raised pystr 'w

record 'w animation =
  mobject :: "nat option"
  anim_setup_scene :: "'w \<Rightarrow> 'w outcome"
  anim_begin :: "'w \<Rightarrow> 'w outcome"
  anim_interpolate :: "real \<Rightarrow> 'w \<Rightarrow> 'w outcome"
  anim_finish :: "'w \<Rightarrow> 'w outcome"

datatype pyval = PyNone | PyNum real | PyStr pystr

datatype 'w arg = Anim "'w animation" | Other pyval

type_synonym kwargs = "(pystr \<times> pyval) list"

definition check_frame :: "'w framework \<Rightarrow> 'w \<Rightarrow> bool \<Rightarrow> validator \<Rightarrow> validator" where
  "check_frame fw scene final v = check_frame_mobs (HALF_W fw) (HALF_H fw) (mobjects fw scene) v"

text \<open>\<open>mob in scene.mobjects\<close>, and the guarded \<open>scene.add(mob)\<close> of the source.\<close>

definition in_scene :: "'w framework \<Rightarrow> nat \<Rightarrow> 'w \<Rightarrow> bool" where
  "in_scene fw m scene = (m \<in> set (map (\<lambda>x. mob_id (attrs x)) (mobjects fw scene)))"

definition add_if_absent :: "'w framework \<Rightarrow> nat \<Rightarrow> 'w \<Rightarrow> 'w" where
  "add_if_absent fw m scene = (if \<not> in_scene fw m scene then scene_add fw m scene else scene)"

text \<open>The body of the \<open>try\<close>: the four stages in order, the first exception ends it.\<close>

definition lifecycle :: "'w animation \<Rightarrow> 'w \<Rightarrow> 'w outcome" where
  "lifecycle a scene =
     (case anim_setup_scene a scene of
        Raised e s1 \<Rightarrow> Raised e s1
      | Done s1 \<Rightarrow>
         (case anim_begin a s1 of
            Raised e s2 \<Rightarrow> Raised e s2
          | Done s2 \<Rightarrow>
             (case anim_interpolate a 1.0 s2 of
                Raised e s3 \<Rightarrow> Raised e s3
              | Done s3 \<Rightarrow> anim_finish a s3)))"

text \<open>
  One iteration of the loop over \<open>args\<close>. The \<open>except\<close> branch only prints (under
  \<open>verbose\<close>); console output is not modelled.
\<close>

definition play_arg :: "'w framework \<Rightarrow> 'w arg \<Rightarrow> 'w \<Rightarrow> 'w" where
  "play_arg fw anim_arg scene =
     (case anim_arg of
        Other x \<Rightarrow> scene
      | Anim a \<Rightarrow>
         (case mobject a of
            None \<Rightarrow> scene
          | Some m \<Rightarrow>
              let s1 = add_if_absent fw m scene;
                  s2 = (case lifecycle a s1 of Done s' \<Rightarrow> s' | Raised e s' \<Rightarrow> s')
              in add_if_absent fw m s2))"

definition patched_play ::
  "'w framework \<Rightarrow> 'w arg list \<Rightarrow> kwargs \<Rightarrow> validator \<times> 'w \<Rightarrow> validator \<times> 'w" where
  "patched_play fw args kw s =
     (case s of (v, scene) \<Rightarrow>
        let scene' = fold (play_arg fw) args scene;
            v' = v\<lparr>step := step v + 1\<rparr>
        in (check_frame fw scene' False v', scene'))"

definition patched_wait :: "pyval list \<Rightarrow> kwargs \<Rightarrow> validator \<times> 'w \<Rightarrow> validator \<times> 'w" where
  "patched_wait args kw s = s"

text \<open>
  A run of a scene's \<open>construct()\<close> is the sequence of what it does to the scene: calls
  of \<open>play\<close> and \<open>wait\<close>, direct changes of the scene (\<open>Direct\<close>), and possibly an
  exception that ends it (\<open>Raise\<close>). \<open>run_construct\<close> returns the exception, if any,
  with the state reached.
\<close>

datatype 'w call =
    Play "'w arg list" kwargs
  | Wait "pyval list" kwargs
  | Direct "'w \<Rightarrow> 'w"
  | Raise pystr

fun run_construct ::
  "'w framework \<Rightarrow> 'w call list \<Rightarrow> validator \<times> 'w \<Rightarrow> pystr option \<times> validator \<times> 'w" where
  "run_construct fw [] s = (None, s)"
| "run_construct fw (Play args kw # cs) s = run_construct fw cs (patched_play fw args kw s)"
| "run_construct fw (Wait args kw # cs) s = run_construct fw cs (patched_wait args kw s)"
| "run_construct fw (Direct f # cs) s = run_construct fw cs (fst s, f (snd s))"
| "run_construct fw (Raise e # cs) s = (Some e, s)"

text \<open>
  \<open>SceneValidator.__init__\<close> and \<open>SceneValidator.validate\<close>. A scene class is its
  name, the state \<open>scene_class()\<close> builds, and the run of its \<open>construct()\<close>.
\<close>

record 'w scene_class =
  class_name :: pystr
  new_scene :: 'w
  construct :: "'w call list"

definition new_validator :: "'w scene_class \<Rightarrow> issue list \<Rightarrow> real \<Rightarrow> bool \<Rightarrow> validator" where
  "new_validator sc tr thr verb =
     \<lparr>scene_name = class_name sc, overlap_threshold = thr, verbose = verb, step = 0,
      reported_overlaps = {}, reported_oob = {}, tracker = tr\<rparr>"

definition validate :: "'w framework \<Rightarrow> 'w scene_class \<Rightarrow> validator \<Rightarrow> validator \<times> 'w" where
  "validate fw sc v =
     (let v0 = v\<lparr>step := 0, reported_overlaps := {}, reported_oob := {}\<rparr>
      in case run_construct fw (construct sc) (v0, new_scene sc) of
           (exc, v1, scene) \<Rightarrow>
             let v2 = (case exc of
                         None \<Rightarrow> v1
                       | Some e \<Rightarrow> v1\<lparr>tracker := add_issue ERROR (scene_name v1) (step v1)
                                                    (CONSTRUCT_msg e) (tracker v1)\<rparr>)
             in (check_frame fw scene True v2, scene))"

text \<open>
  \<open>main\<close>, from the list of discovered scene classes on: \<open>validate_all\<close> is the loop
  over the scene classes with the shared tracker, \<open>main_exit\<close> the exit status, which
  is 1 without a report when no scene class was found, and otherwise 0 or 1 by the
  verdict \<open>ok\<close> of the report.
\<close>

definition validate_all ::
  "'w framework \<Rightarrow> real \<Rightarrow> bool \<Rightarrow> 'w scene_class list \<Rightarrow> issue list \<Rightarrow> issue list" where
  "validate_all fw thr verb scs tr =
     fold (\<lambda>sc issues. tracker (fst (validate fw sc (new_validator sc issues thr verb)))) scs tr"

definition main_exit :: "'w framework \<Rightarrow> real \<Rightarrow> bool \<Rightarrow> 'w scene_class list \<Rightarrow> nat" where
  "main_exit fw thr verb scene_classes =
     (if scene_classes = [] then 1
      else let ok = report (validate_all fw thr verb scene_classes [])
           in if ok then 0 else 1)"

section \<open>Notions of the specification\<close>

text \<open>
  The deduplication key of an issue, read off its message: label and violations for an
  out-of-bounds finding, the sorted pair of labels for an overlap. \<open>keys_of\<close> is the
  content of the validator's two sets of reported keys; \<open>new_issues\<close> is what a later
  state of the tracker holds beyond an earlier one; \<open>pairs\<close> lists the pairs
  \<open>(i, j)\<close> with \<open>i < j\<close> of a list; \<open>frame_keys\<close> are the keys a frame triggers:
  those of its elements with a violated edge and of its pairs of elements, unrelated by
  ancestry, whose overlap ratio exceeds the threshold; \<open>issue_justified\<close> says that an
  issue reports such an element or pair of the frame with the severity of the rule.
  \<open>scan_ext\<close> relates a validator to a later one that a scan can reach.
  \<open>play_scenes\<close> lists the scene states at the scans of a run's \<open>play\<close> calls,
  \<open>scanned_frames\<close> all frames a validation run scans, \<open>before_final_scan\<close> is the
  validator of \<open>validate\<close> when \<open>construct()\<close> has ended and its exception, if any, is
  recorded, just before the final scan, \<open>plays_executed\<close> counts the
  \<open>play\<close> calls a run of \<open>construct()\<close> makes, and \<open>skipped\<close> holds of the
  arguments of \<open>play\<close> that are no animation or have no target.
\<close>

datatype key = OOB_key pystr "pystr list" | OVERLAP_key "pystr list" | CONSTRUCT_key

fun issue_key :: "issue \<Rightarrow> key" where
  "issue_key (sev, scene, st, OOB_msg label bbox violations) = OOB_key label violations"
| "issue_key (sev, scene, st, OVERLAP_msg ratio l1 l2) = OVERLAP_key (sort [l1, l2])"
| "issue_key (sev, scene, st, CONSTRUCT_msg e) = CONSTRUCT_key"

definition keys_of :: "validator \<Rightarrow> key set" where
  "keys_of v = (\<lambda>(label, violations). OOB_key label violations) ` reported_oob v \<union>
               OVERLAP_key ` reported_overlaps v"

definition new_issues :: "validator \<Rightarrow> validator \<Rightarrow> issue list" where
  "new_issues v v' = drop (length (tracker v)) (tracker v')"

fun pairs :: "'a list \<Rightarrow> ('a \<times> 'a) list" where
  "pairs [] = []"
| "pairs (x # xs) = map (Pair x) xs @ pairs xs"

definition oob_triggered :: "real \<Rightarrow> real \<Rightarrow> mob \<times> bbox \<Rightarrow> bool" where
  "oob_triggered hw hh mb = (is_oob hw hh (snd mb) \<noteq> [])"

definition oob_key :: "real \<Rightarrow> real \<Rightarrow> mob \<times> bbox \<Rightarrow> key" where
  "oob_key hw hh mb = OOB_key (mob_label (fst mb)) (is_oob hw hh (snd mb))"

definition overlap_triggered :: "real \<Rightarrow> (mob \<times> bbox) \<times> (mob \<times> bbox) \<Rightarrow> bool" where
  "overlap_triggered thr p =
     (\<not> is_ancestor (fst (fst p)) (fst (snd p)) \<and> \<not> is_ancestor (fst (snd p)) (fst (fst p)) \<and>
      overlap_ratio (snd (fst p)) (snd (snd p)) > thr)"

definition overlap_key :: "(mob \<times> bbox) \<times> (mob \<times> bbox) \<Rightarrow> key" where
  "overlap_key p = OVERLAP_key (sort [mob_label (fst (fst p)), mob_label (fst (snd p))])"

definition frame_keys :: "real \<Rightarrow> real \<Rightarrow> real \<Rightarrow> mob list \<Rightarrow> key set" where
  "frame_keys hw hh thr mobs =
     (let mwb = mobs_with_bbox mobs
      in set (map (oob_key hw hh) (filter (oob_triggered hw hh) mwb)) \<union>
         set (map overlap_key (filter (overlap_triggered thr) (pairs mwb))))"

definition issue_justified :: "real \<Rightarrow> real \<Rightarrow> real \<Rightarrow> (mob \<times> bbox) list \<Rightarrow> issue \<Rightarrow> bool" where
  "issue_justified hw hh thr mwb i =
     (case i of (sev, scene, st, msg) \<Rightarrow>
        (case msg of
           OOB_msg label bbox violations \<Rightarrow>
             sev = ERROR \<and> violations = is_oob hw hh bbox \<and> violations \<noteq> [] \<and>
             list_ex (\<lambda>mb. snd mb = bbox \<and> mob_label (fst mb) = label) mwb
         | OVERLAP_msg ratio l1 l2 \<Rightarrow>
             sev = (if ratio > 0.6 then ERROR else WARN) \<and>
             list_ex (\<lambda>p. overlap_triggered thr p \<and> overlap_ratio (snd (fst p)) (snd (snd p)) = ratio \<and>
                          mob_label (fst (fst p)) = l1 \<and> mob_label (fst (snd p)) = l2) (pairs mwb)
         | CONSTRUCT_msg e \<Rightarrow> False))"

definition scan_ext :: "validator \<Rightarrow> validator \<Rightarrow> bool" where
  "scan_ext v v' \<longleftrightarrow>
     scene_name v' = scene_name v \<and> step v' = step v \<and>
     overlap_threshold v' = overlap_threshold v \<and> verbose v' = verbose v \<and>
     reported_oob v \<subseteq> reported_oob v' \<and> reported_overlaps v \<subseteq> reported_overlaps v' \<and>
     (\<exists>new. tracker v' = tracker v @ new \<and> distinct (map issue_key new) \<and>
            set (map issue_key new) = keys_of v' - keys_of v \<and>
            (\<forall>i \<in> set new. fst (snd i) = scene_name v \<and> fst (snd (snd i)) = step v))"

definition run_ext :: "validator \<Rightarrow> validator \<Rightarrow> bool" where
  "run_ext v v' \<longleftrightarrow>
     scene_name v' = scene_name v \<and> overlap_threshold v' = overlap_threshold v \<and>
     keys_of v \<subseteq> keys_of v' \<and>
     (\<exists>new. tracker v' = tracker v @ new \<and> distinct (map issue_key new) \<and>
            set (map issue_key new) = keys_of v' - keys_of v)"

definition violated_edge :: "pystr \<Rightarrow> pystr" where
  "violated_edge violation = takeWhile (\<lambda>c. c \<noteq> of_char (CHR '' '')) violation"

fun play_scenes :: "'w framework \<Rightarrow> 'w call list \<Rightarrow> 'w \<Rightarrow> 'w list" where
  "play_scenes fw [] scene = []"
| "play_scenes fw (Play args kw # cs) scene =
     (let scene' = fold (play_arg fw) args scene in scene' # play_scenes fw cs scene')"
| "play_scenes fw (Wait args kw # cs) scene = play_scenes fw cs scene"
| "play_scenes fw (Direct f # cs) scene = play_scenes fw cs (f scene)"
| "play_scenes fw (Raise e # cs) scene = []"

definition scanned_frames :: "'w framework \<Rightarrow> 'w scene_class \<Rightarrow> validator \<Rightarrow> mob list list" where
  "scanned_frames fw sc v =
     map (mobjects fw) (play_scenes fw (construct sc) (new_scene sc) @ [snd (validate fw sc v)])"

definition before_final_scan :: "'w framework \<Rightarrow> 'w scene_class \<Rightarrow> validator \<Rightarrow> validator" where
  "before_final_scan fw sc v =
     (let v0 = v\<lparr>step := 0, reported_overlaps := {}, reported_oob := {}\<rparr>
      in case run_construct fw (construct sc) (v0, new_scene sc) of
           (exc, v1, scene) \<Rightarrow>
             (case exc of
                None \<Rightarrow> v1
              | Some e \<Rightarrow> v1\<lparr>tracker := add_issue ERROR (scene_name v1) (step v1)
                                           (CONSTRUCT_msg e) (tracker v1)\<rparr>))"

fun plays_executed :: "'w call list \<Rightarrow> nat" where
  "plays_executed [] = 0"
| "plays_executed (Play args kw # cs) = Suc (plays_executed cs)"
| "plays_executed (Wait args kw # cs) = plays_executed cs"
| "plays_executed (Direct f # cs) = plays_executed cs"
| "plays_executed (Raise e # cs) = 0"

fun skipped :: "'w arg \<Rightarrow> bool" where
  "skipped (Other x) = True"
| "skipped (Anim a) = (mobject a = None)"

section \<open>Example scenes\<close>

text \<open>
  Concrete elements, a validator and a framework instance on which the theorems below
  are evaluated. The example framework keeps the scene's elements as its whole state;
  its \<open>scene.add\<close> appends a unit square of the given identity.
\<close>

definition box_mob :: "nat \<Rightarrow> string \<Rightarrow> bbox \<Rightarrow> mob list \<Rightarrow> mob" where
  "box_mob i c bbox subs =
     (case bbox of (l, r, b, t) \<Rightarrow>
        Mob \<lparr>mob_id = i, cls = py_str c, is_text = False, is_vgroup = False, text_attr = None,
             original_text = None, has_points = True,
             corner_UL = Some (l, t), corner_DR = Some (r, b)\<rparr> subs)"

definition ex_validator :: "real \<Rightarrow> validator" where
  "ex_validator thr =
     \<lparr>scene_name = py_str ''Scene1'', overlap_threshold = thr, verbose = False, step = 0,
      reported_overlaps = {}, reported_oob = {}, tracker = []\<rparr>"

definition ex_fw :: "(mob list) framework" where
  "ex_fw = \<lparr>HALF_W = 7.11, HALF_H = 4, mobjects = (\<lambda>w. w),
            scene_add = (\<lambda>i w. w @ [box_mob i ''Square'' (0, 1, 0, 1) []])\<rparr>"

definition ex_label :: mob where
  "ex_label = box_mob 2 ''Label'' (0, 1, 0, 1) []"

definition ex_container :: mob where
  "ex_container = box_mob 1 ''Panel'' (-1, 5, -1, 3) [ex_label]"

definition ex_a :: mob where
  "ex_a = box_mob 10 ''A'' (0, 2, 0, 1) []"

definition ex_b :: mob where
  "ex_b = box_mob 11 ''B'' (0, 2, 0, 1) []"

definition ex_p :: mob where
  "ex_p = box_mob 20 ''P'' (0, 1, 0, 1) []"

definition ex_q :: mob where
  "ex_q = box_mob 21 ''Q'' (0.3, 1.3, 0, 1) []"

definition ex_thin :: mob where
  "ex_thin = box_mob 30 ''Line'' (100, 100, 0, 1) []"

definition ex_left :: mob where
  "ex_left = box_mob 40 ''Square'' (-8, -6, -1, 1) []"

definition ex_no_target :: "(mob list) animation" where
  "ex_no_target = \<lparr>mobject = None, anim_setup_scene = Done, anim_begin = Done,
                    anim_interpolate = (\<lambda>alpha. Done), anim_finish = Done\<rparr>"

definition ex_failing :: "(mob list) animation" where
  "ex_failing = \<lparr>mobject = Some 5, anim_setup_scene = Done,
                  anim_begin = (\<lambda>scene. Raised (py_str ''begin failed'') scene),
                  anim_interpolate = (\<lambda>alpha. Done), anim_finish = Done\<rparr>"

definition ex_fade_in :: "(mob list) animation" where
  "ex_fade_in = \<lparr>mobject = Some 6, anim_setup_scene = Done, anim_begin = Done,
                  anim_interpolate = (\<lambda>alpha. Done), anim_finish = Done\<rparr>"

definition ex_scene :: "(mob list) scene_class" where
  "ex_scene = \<lparr>class_name = py_str ''Scene1'', new_scene = [],
                construct = [Direct (\<lambda>scene. [box_mob 40 ''Square'' (-8, -6, -1, 1) []]), Play [] [],
                             Direct (\<lambda>scene. [box_mob 40 ''Square'' (-9, -7, -1, 1) []]), Play [] []]\<rparr>"

definition ex_late :: "(mob list) scene_class" where
  "ex_late = \<lparr>class_name = py_str ''Scene1'', new_scene = [],
               construct = [Play [] [], Direct (\<lambda>scene. [box_mob 40 ''Square'' (-8, -6, -1, 1) []])]\<rparr>"

definition ex_clean :: "(mob list) scene_class" where
  "ex_clean = \<lparr>class_name = py_str ''Scene2'', new_scene = [],
                construct = [Direct (\<lambda>scene. [box_mob 10 ''A'' (0, 2, 0, 1) []]), Play [] [], Wait [PyNum 1] []]\<rparr>"

section \<open>Labels\<close>

text \<open>
  The label of a text element keeps the first 25 code points of its text, whatever the
  characters are: a text of 30 times the code point U+4E2D is cut to 25 of them.
\<close>

lemma mob_label_text:
  "is_text (attrs mob) \<Longrightarrow> text_attr (attrs mob) = Some txt \<Longrightarrow>
   mob_label mob = cls (attrs mob) @ py_str (''('' @ dquote) @ take 25 txt @ py_str (dquote @ '')'')"
  by (simp add: mob_label_def Let_def)

lemma mob_label_text_example:
  "mob_label (Mob \<lparr>mob_id = 1, cls = py_str ''Text'', is_text = True, is_vgroup = False,
                      text_attr = Some (replicate 30 20013), original_text = None,
                      has_points = True, corner_UL = Some (0, 1), corner_DR = Some (1, 0)\<rparr> [])
     = py_str ''Text'' @ py_str (''('' @ dquote) @ replicate 25 20013 @ py_str (dquote @ '')'')"
  by (simp add: mob_label_text)

section \<open>Geometry: the overlap ratio in exact arithmetic\<close>

lemma bbox_intersection_commute: "bbox_intersection a b = bbox_intersection b a"
  by (cases a; cases b) (auto simp: bbox_intersection_def Let_def max.commute min.commute)

lemma intersection_area_le_left:
  "bbox_intersection a b = Some i \<Longrightarrow> bbox_area i \<le> bbox_area a"
  apply (cases a; cases b)
  apply (auto simp: bbox_intersection_def bbox_area_def Let_def split: if_splits)
  apply (rule mult_mono)
     apply (auto simp: max_def min_def)
  done

lemma intersection_area_le_right:
  "bbox_intersection a b = Some i \<Longrightarrow> bbox_area i \<le> bbox_area b"
  using intersection_area_le_left[of b a i] by (simp add: bbox_intersection_commute)

lemma intersection_area_pos: "bbox_intersection a b = Some i \<Longrightarrow> 0 < bbox_area i"
  by (cases a; cases b)
     (auto simp: bbox_intersection_def bbox_area_def Let_def split: if_splits)

lemma bbox_area_intersection:
  "bbox_intersection a b = Some i \<Longrightarrow> bbox_area i = intersection_area a b"
  by (cases a; cases b)
     (auto simp: bbox_intersection_def bbox_area_def intersection_area_def Let_def
           split: if_splits)

lemma intersection_area_None: "bbox_intersection a b = None \<Longrightarrow> intersection_area a b = 0"
  by (cases a; cases b)
     (auto simp: bbox_intersection_def intersection_area_def Let_def split: if_splits)

lemma overlap_ratio_bounds: "0 \<le> overlap_ratio a b \<and> overlap_ratio a b \<le> 1"
proof (cases "bbox_intersection a b")
  case None
  then show ?thesis by (simp add: overlap_ratio_def)
next
  case (Some i)
  have "bbox_area i \<le> min (bbox_area a) (bbox_area b)" and "0 < bbox_area i"
    using intersection_area_le_left[OF Some] intersection_area_le_right[OF Some]
      intersection_area_pos[OF Some] by simp_all
  then show ?thesis using Some
    by (simp add: overlap_ratio_def Let_def)
qed

lemma overlap_ratio_small_area:
  "bbox_area a < 1 / 1000000 \<or> bbox_area b < 1 / 1000000 \<Longrightarrow> overlap_ratio a b = 0"
  by (auto simp: overlap_ratio_def Let_def split: option.splits)

lemma overlap_ratio_quotient:
  "\<not> (bbox_area a < 1 / 1000000 \<or> bbox_area b < 1 / 1000000) \<Longrightarrow>
   overlap_ratio a b = intersection_area a b / smaller_area a b"
  by (auto simp: overlap_ratio_def Let_def smaller_area_def bbox_area_intersection
        intersection_area_None split: option.splits)

text \<open>
  The formulas of \<open>overlap_ratio\<close> read over the real numbers: the ratio lies in
  [0, 1]; it is 0 when either area is below 1e-6, when there is no intersection, and
  when the boxes only touch at an edge (an intersection needs strict inequality on both
  axes); otherwise it is the intersection area divided by the area of the smaller box.
  These are facts of exact arithmetic. The program computes in doubles, where each
  operation rounds and an area that overflows makes the quotient a not-a-number, so
  they say nothing about the range or the exact value of what the program returns.
\<close>

lemma overlap_ratio_exact:
  "0 \<le> overlap_ratio (l1, r1, b1, t1) (l2, r2, b2, t2) \<and>
   overlap_ratio (l1, r1, b1, t1) (l2, r2, b2, t2) \<le> 1 \<and>
   (bbox_area (l1, r1, b1, t1) < 1 / 1000000 \<or> bbox_area (l2, r2, b2, t2) < 1 / 1000000
      \<longrightarrow> overlap_ratio (l1, r1, b1, t1) (l2, r2, b2, t2) = 0) \<and>
   (bbox_intersection (l1, r1, b1, t1) (l2, r2, b2, t2) = None
      \<longrightarrow> overlap_ratio (l1, r1, b1, t1) (l2, r2, b2, t2) = 0) \<and>
   (bbox_intersection (l1, r1, b1, t1) (l2, r2, b2, t2) = None
      \<longleftrightarrow> \<not> (max l1 l2 < min r1 r2 \<and> max b1 b2 < min t1 t2)) \<and>
   (r1 = l2 \<or> r2 = l1 \<or> t1 = b2 \<or> t2 = b1
      \<longrightarrow> overlap_ratio (l1, r1, b1, t1) (l2, r2, b2, t2) = 0) \<and>
   (\<not> (bbox_area (l1, r1, b1, t1) < 1 / 1000000 \<or> bbox_area (l2, r2, b2, t2) < 1 / 1000000)
      \<longrightarrow> overlap_ratio (l1, r1, b1, t1) (l2, r2, b2, t2) =
           intersection_area (l1, r1, b1, t1) (l2, r2, b2, t2) /
           smaller_area (l1, r1, b1, t1) (l2, r2, b2, t2))"
proof -
  have "bbox_intersection (l1, r1, b1, t1) (l2, r2, b2, t2) = None
          \<longleftrightarrow> \<not> (max l1 l2 < min r1 r2 \<and> max b1 b2 < min t1 t2)"
    by (simp add: bbox_intersection_def Let_def)
  moreover have "r1 = l2 \<or> r2 = l1 \<or> t1 = b2 \<or> t2 = b1
          \<longrightarrow> overlap_ratio (l1, r1, b1, t1) (l2, r2, b2, t2) = 0"
    by (auto simp: overlap_ratio_def bbox_intersection_def Let_def)
  moreover have "bbox_intersection (l1, r1, b1, t1) (l2, r2, b2, t2) = None
          \<longrightarrow> overlap_ratio (l1, r1, b1, t1) (l2, r2, b2, t2) = 0"
    by (simp add: overlap_ratio_def)
  ultimately show ?thesis
    using overlap_ratio_bounds overlap_ratio_small_area overlap_ratio_quotient by blast
qed

lemma overlap_ratio_exact_examples:
  "bbox_area (0, 1 / 10000, 0, 1 / 10000) < 1 / 1000000 \<and>
   overlap_ratio (0, 1 / 10000, 0, 1 / 10000) (0, 1 / 10000, 0, 1 / 10000) = 0 \<and>
   bbox_intersection (0, 1, 0, 1) (1, 2, 0, 1) = None \<and>
   overlap_ratio (0, 1, 0, 1) (1, 2, 0, 1) = 0 \<and>
   \<not> (bbox_area (0, 2, 0, 1) < 1 / 1000000 \<or> bbox_area (1, 4, 0, 1) < 1 / 1000000) \<and>
   overlap_ratio (0, 2, 0, 1) (1, 4, 0, 1) =
     intersection_area (0, 2, 0, 1) (1, 4, 0, 1) / smaller_area (0, 2, 0, 1) (1, 4, 0, 1) \<and>
   overlap_ratio (0, 2, 0, 1) (1, 4, 0, 1) = 1 / 2"
  using overlap_ratio_exact[of 0 "1 / 10000" 0 "1 / 10000" 0 "1 / 10000" 0 "1 / 10000"]
    overlap_ratio_exact[of 0 1 0 1 1 2 0 1]
    overlap_ratio_exact[of 0 2 0 1 1 4 0 1]
  by (simp add: bbox_area_def bbox_intersection_def intersection_area_def smaller_area_def)

section \<open>The ancestor relation\<close>

lemma is_ancestor_reachable:
  "is_ancestor a n \<Longrightarrow> \<exists>d. (a, d) \<in> child_rel\<^sup>+ \<and> mob_id (attrs d) = mob_id (attrs n)"
proof (induction a n rule: is_ancestor.induct)
  case (1 a subs mob)
  then obtain sub where sub: "sub \<in> set subs"
    "mob_id (attrs sub) = mob_id (attrs mob) \<or> is_ancestor sub mob"
    by (auto simp: list_ex_iff)
  have ch: "(Mob a subs, sub) \<in> child_rel"
    using sub(1) by (simp add: child_rel_def)
  show ?case
  proof (cases "mob_id (attrs sub) = mob_id (attrs mob)")
    case True
    then show ?thesis using ch by blast
  next
    case False
    then have "is_ancestor sub mob" using sub(2) by simp
    from "1.IH"[OF sub(1) this] obtain d
      where "(sub, d) \<in> child_rel\<^sup>+" "mob_id (attrs d) = mob_id (attrs mob)" by blast
    then show ?thesis using ch by (meson trancl_into_trancl2)
  qed
qed

lemma is_ancestor_child:
  "(a, c) \<in> child_rel \<Longrightarrow> mob_id (attrs c) = mob_id (attrs n) \<or> is_ancestor c n
     \<Longrightarrow> is_ancestor a n"
  by (cases a) (auto simp: child_rel_def list_ex_iff)

lemma reachable_is_ancestor:
  "(a, d) \<in> child_rel\<^sup>+ \<Longrightarrow> mob_id (attrs d) = mob_id (attrs n) \<Longrightarrow> is_ancestor a n"
proof (induction rule: converse_trancl_induct)
  case (base y)
  then show ?case using is_ancestor_child by blast
next
  case (step y z)
  then show ?case using is_ancestor_child by blast
qed

text \<open>
  C6. \<open>is_ancestor a n\<close> holds iff the element \<open>n\<close> is reached from \<open>a\<close> by one or more
  steps of the child relation (so never at distance 0: an element without children is
  nobody's ancestor), and a pair of scanned elements in an ancestor relation, in either
  direction, leaves the validator unchanged in the overlap check, whatever their boxes.
\<close>

theorem is_ancestor_spec:
  "(is_ancestor a n \<longleftrightarrow>
      (\<exists>d. (a, d) \<in> child_rel\<^sup>+ \<and> mob_id (attrs d) = mob_id (attrs n))) \<and>
   \<not> is_ancestor (Mob x []) n \<and>
   (is_ancestor mob_i mob_j \<or> is_ancestor mob_j mob_i
      \<longrightarrow> overlap_check (mob_i, bbox_i) (mob_j, bbox_j) v = v)"
  using is_ancestor_reachable reachable_is_ancestor
  by (auto simp: overlap_check_def)

theorem is_ancestor_spec_witness:
  "is_ancestor ex_container ex_label \<and>
   overlap_ratio (-1, 5, -1, 3) (0, 1, 0, 1) = 1 \<and>
   overlap_check (ex_container, (-1, 5, -1, 3)) (ex_label, (0, 1, 0, 1)) (ex_validator 0.3)
     = ex_validator 0.3 \<and>
   tracker (check_frame ex_fw [ex_container, ex_label] False (ex_validator 0.3)) = []"
proof -
  have anc: "is_ancestor ex_container ex_label"
    by (simp add: ex_container_def ex_label_def box_mob_def)
  have scan: "tracker (check_frame ex_fw [ex_container, ex_label] False (ex_validator 0.3)) = []"
    by code_simp
  have "overlap_ratio (-1, 5, -1, 3) (0, 1, 0, 1) = 1"
    by (simp add: overlap_ratio_def bbox_intersection_def bbox_area_def)
  then show ?thesis
    using anc scan is_ancestor_spec[where a = ex_container and n = ex_label
        and mob_i = ex_container and mob_j = ex_label
        and bbox_i = "(-1, 5, -1, 3)" and bbox_j = "(0, 1, 0, 1)" and v = "ex_validator 0.3"]
    by simp
qed

section \<open>The intercepted wait\<close>

lemma run_construct_skip_wait:
  "run_construct fw (pre @ Wait args kw # post) s = run_construct fw (pre @ post) s"
proof (induction pre arbitrary: s)
  case Nil
  show ?case by (simp add: patched_wait_def)
next
  case (Cons c cs)
  show ?case by (cases c) (simp_all add: Cons.IH)
qed

text \<open>
  C9. The intercepted \<open>wait\<close> returns the validator and the scene as it received them,
  for all arguments; a run of \<open>construct()\<close> reaches the same result with the call as
  without it.
\<close>

theorem patched_wait_noop:
  "patched_wait args kw (v, scene) = (v, scene) \<and>
   run_construct fw (pre @ Wait args kw # post) s = run_construct fw (pre @ post) s"
  by (simp add: patched_wait_def run_construct_skip_wait)

section \<open>Scans of a frame\<close>

lemma keys_of_mono:
  "reported_oob v \<subseteq> reported_oob v' \<Longrightarrow> reported_overlaps v \<subseteq> reported_overlaps v' \<Longrightarrow> keys_of v \<subseteq> keys_of v'"
  by (auto simp: keys_of_def)

lemma scan_ext_refl: "scan_ext v v"
  by (simp add: scan_ext_def)

lemma scan_ext_trans:
  assumes "scan_ext v1 v2" "scan_ext v2 v3"
  shows "scan_ext v1 v3"
proof -
  from assms(1) obtain n1 where n1: "tracker v2 = tracker v1 @ n1" "distinct (map issue_key n1)"
    "set (map issue_key n1) = keys_of v2 - keys_of v1"
    "\<forall>i \<in> set n1. fst (snd i) = scene_name v1 \<and> fst (snd (snd i)) = step v1"
    unfolding scan_ext_def by blast
  from assms(2) obtain n2 where n2: "tracker v3 = tracker v2 @ n2" "distinct (map issue_key n2)"
    "set (map issue_key n2) = keys_of v3 - keys_of v2"
    "\<forall>i \<in> set n2. fst (snd i) = scene_name v2 \<and> fst (snd (snd i)) = step v2"
    unfolding scan_ext_def by blast
  have f12: "scene_name v2 = scene_name v1" "step v2 = step v1"
    "overlap_threshold v2 = overlap_threshold v1" "verbose v2 = verbose v1"
    "reported_oob v1 \<subseteq> reported_oob v2" "reported_overlaps v1 \<subseteq> reported_overlaps v2"
    using assms(1) unfolding scan_ext_def by simp_all
  have f23: "scene_name v3 = scene_name v2" "step v3 = step v2"
    "overlap_threshold v3 = overlap_threshold v2" "verbose v3 = verbose v2"
    "reported_oob v2 \<subseteq> reported_oob v3" "reported_overlaps v2 \<subseteq> reported_overlaps v3"
    using assms(2) unfolding scan_ext_def by simp_all
  have k: "keys_of v1 \<subseteq> keys_of v2" "keys_of v2 \<subseteq> keys_of v3"
    using f12(5,6) f23(5,6) keys_of_mono by simp_all
  have t: "tracker v3 = tracker v1 @ (n1 @ n2)" using n1(1) n2(1) by simp
  have "set (map issue_key n1) \<inter> set (map issue_key n2) = {}"
    unfolding n1(3) n2(3) by blast
  then have d: "distinct (map issue_key (n1 @ n2))"
    using n1(2) n2(2) by simp
  have "set (map issue_key (n1 @ n2)) = set (map issue_key n1) \<union> set (map issue_key n2)"
    by simp
  also have "\<dots> = keys_of v3 - keys_of v1"
    unfolding n1(3) n2(3) using k by blast
  finally have s: "set (map issue_key (n1 @ n2)) = keys_of v3 - keys_of v1" .
  have g: "\<forall>i \<in> set (n1 @ n2). fst (snd i) = scene_name v1 \<and> fst (snd (snd i)) = step v1"
    using n1(4) n2(4) f12(1-3) by auto
  have sub: "reported_oob v1 \<subseteq> reported_oob v3" "reported_overlaps v1 \<subseteq> reported_overlaps v3"
    using f12(5,6) f23(5,6) by blast+
  have ex: "\<exists>new. tracker v3 = tracker v1 @ new \<and> distinct (map issue_key new) \<and>
            set (map issue_key new) = keys_of v3 - keys_of v1 \<and>
            (\<forall>i \<in> set new. fst (snd i) = scene_name v1 \<and> fst (snd (snd i)) = step v1)"
    using t d s g by blast
  show ?thesis
    unfolding scan_ext_def using f12(1-4) f23(1-4) sub ex by simp
qed

lemma oob_check_ext: "scan_ext v (oob_check hw hh mb v)"
  by (cases mb) (auto simp: scan_ext_def oob_check_def Let_def add_issue_def keys_of_def)

lemma overlap_check_ext: "scan_ext v (overlap_check mi mj v)"
  by (cases mi; cases mj) (auto simp: scan_ext_def overlap_check_def Let_def add_issue_def keys_of_def)

lemma fold_ext: "(\<And>x u. scan_ext u (f x u)) \<Longrightarrow> scan_ext v (fold f xs v)"
proof (induction xs arbitrary: v)
  case Nil
  show ?case by (simp add: scan_ext_refl)
next
  case (Cons x xs)
  show ?case using scan_ext_trans[OF Cons.prems[of v x] Cons.IH[OF Cons.prems]] by simp
qed

lemma overlap_pass_pairs: "overlap_pass mwb v = fold (\<lambda>p. overlap_check (fst p) (snd p)) (pairs mwb) v"
proof (induction mwb arbitrary: v)
  case Nil show ?case by simp
next
  case (Cons x xs)
  have "fold (\<lambda>p. overlap_check (fst p) (snd p)) (map (Pair x) xs) v = fold (overlap_check x) xs v"
    by (simp add: fold_map comp_def)
  then show ?case by (simp add: Cons.IH)
qed

lemma oob_pass_ext: "scan_ext v (fold (oob_check hw hh) mwb v)"
  by (rule fold_ext) (rule oob_check_ext)

lemma overlap_pass_ext: "scan_ext v (overlap_pass mwb v)"
  unfolding overlap_pass_pairs by (rule fold_ext) (rule overlap_check_ext)

lemma check_frame_mobs_ext: "scan_ext v (check_frame_mobs hw hh mobs v)"
  unfolding check_frame_mobs_def Let_def
  using scan_ext_trans[OF oob_pass_ext overlap_pass_ext] .

lemma oob_check_reports:
  "oob_triggered hw hh mb \<Longrightarrow> oob_key hw hh mb \<in> keys_of (oob_check hw hh mb v)"
  by (cases mb) (auto simp: oob_triggered_def oob_key_def oob_check_def Let_def keys_of_def)

lemma scan_ext_keys: "scan_ext v v' \<Longrightarrow> keys_of v \<subseteq> keys_of v'"
  unfolding scan_ext_def using keys_of_mono by blast

lemma oob_pass_reports:
  "mb \<in> set mwb \<Longrightarrow> oob_triggered hw hh mb \<Longrightarrow> oob_key hw hh mb \<in> keys_of (fold (oob_check hw hh) mwb v)"
proof (induction mwb arbitrary: v)
  case Nil
  then show ?case by simp
next
  case (Cons x xs)
  show ?case
  proof (cases "mb = x")
    case True
    have "oob_key hw hh mb \<in> keys_of (oob_check hw hh x v)"
      using True Cons.prems(2) oob_check_reports by simp
    then show ?thesis
      using scan_ext_keys[OF oob_pass_ext[of "oob_check hw hh x v" hw hh xs]] by auto
  next
    case False
    then have "mb \<in> set xs" using Cons.prems(1) by simp
    from Cons.IH[OF this Cons.prems(2)] show ?thesis by simp
  qed
qed

lemma overlap_check_reports:
  "overlap_triggered (overlap_threshold v) p \<Longrightarrow> overlap_key p \<in> keys_of (overlap_check (fst p) (snd p) v)"
  by (cases p; cases "fst p"; cases "snd p")
     (auto simp: overlap_triggered_def overlap_key_def overlap_check_def Let_def keys_of_def)

lemma overlap_fold_ext: "scan_ext v (fold (\<lambda>p. overlap_check (fst p) (snd p)) ps v)"
  by (rule fold_ext) (rule overlap_check_ext)

lemma overlap_fold_reports:
  "p \<in> set ps \<Longrightarrow> overlap_triggered (overlap_threshold v) p \<Longrightarrow>
   overlap_key p \<in> keys_of (fold (\<lambda>p. overlap_check (fst p) (snd p)) ps v)"
proof (induction ps arbitrary: v)
  case Nil
  then show ?case by simp
next
  case (Cons x xs)
  let ?u = "overlap_check (fst x) (snd x) v"
  have thr: "overlap_threshold ?u = overlap_threshold v"
    using overlap_check_ext[of v "fst x" "snd x"] by (simp add: scan_ext_def)
  show ?case
  proof (cases "p = x")
    case True
    have "overlap_key p \<in> keys_of ?u"
      using True Cons.prems(2) overlap_check_reports by simp
    then show ?thesis
      using scan_ext_keys[OF overlap_fold_ext[of ?u xs]] by auto
  next
    case False
    then have "p \<in> set xs" using Cons.prems(1) by simp
    from Cons.IH[OF this, of ?u] Cons.prems(2) thr show ?thesis by simp
  qed
qed

lemma check_frame_mobs_reports:
  "frame_keys hw hh (overlap_threshold v) mobs \<subseteq> keys_of (check_frame_mobs hw hh mobs v)"
proof
  fix k
  assume k: "k \<in> frame_keys hw hh (overlap_threshold v) mobs"
  let ?mwb = "mobs_with_bbox mobs"
  let ?u = "fold (oob_check hw hh) ?mwb v"
  have thr: "overlap_threshold ?u = overlap_threshold v"
    using oob_pass_ext[of v hw hh ?mwb] by (simp add: scan_ext_def)
  from k consider
    (oob) mb where "mb \<in> set ?mwb" "oob_triggered hw hh mb" "k = oob_key hw hh mb"
  | (ovl) p where "p \<in> set (pairs ?mwb)" "overlap_triggered (overlap_threshold v) p" "k = overlap_key p"
    unfolding frame_keys_def Let_def by auto
  then show "k \<in> keys_of (check_frame_mobs hw hh mobs v)"
  proof cases
    case oob
    then have "k \<in> keys_of ?u" using oob_pass_reports by simp
    then show ?thesis
      unfolding check_frame_mobs_def Let_def
      using scan_ext_keys[OF overlap_pass_ext[of ?u ?mwb]] by auto
  next
    case ovl
    then show ?thesis
      unfolding check_frame_mobs_def Let_def overlap_pass_pairs
      using overlap_fold_reports[of p "pairs ?mwb" ?u] thr by simp
  qed
qed

lemma new_issues_append: "tracker v' = tracker v @ new \<Longrightarrow> new_issues v v' = new"
  by (simp add: new_issues_def)

lemma oob_check_justified:
  "mb \<in> set mwb \<Longrightarrow>
   \<exists>new. tracker (oob_check hw hh mb u) = tracker u @ new \<and>
         (\<forall>i \<in> set new. issue_justified hw hh thr mwb i)"
  by (cases mb) (force simp: oob_check_def Let_def add_issue_def issue_justified_def list_ex_iff)

lemma oob_check_alt:
  "oob_check hw hh mb v =
     (if oob_triggered hw hh mb \<and> (mob_label (fst mb), is_oob hw hh (snd mb)) \<notin> reported_oob v
      then v\<lparr>reported_oob := insert (mob_label (fst mb), is_oob hw hh (snd mb)) (reported_oob v),
             tracker := tracker v @ [(ERROR, scene_name v, step v,
                          OOB_msg (mob_label (fst mb)) (snd mb) (is_oob hw hh (snd mb)))]\<rparr>
      else v)"
  by (cases mb) (simp add: oob_check_def oob_triggered_def Let_def add_issue_def)

lemma overlap_check_alt:
  "overlap_check (fst p) (snd p) v =
     (if overlap_triggered (overlap_threshold v) p \<and>
         sort [mob_label (fst (fst p)), mob_label (fst (snd p))] \<notin> reported_overlaps v
      then v\<lparr>reported_overlaps :=
               insert (sort [mob_label (fst (fst p)), mob_label (fst (snd p))]) (reported_overlaps v),
             tracker := tracker v @
               [(if overlap_ratio (snd (fst p)) (snd (snd p)) > 0.6 then ERROR else WARN,
                 scene_name v, step v,
                 OVERLAP_msg (overlap_ratio (snd (fst p)) (snd (snd p)))
                   (mob_label (fst (fst p))) (mob_label (fst (snd p))))]\<rparr>
      else v)"
  by (cases p; cases "fst p"; cases "snd p")
     (simp add: overlap_check_def overlap_triggered_def Let_def add_issue_def)

lemma overlap_check_justified:
  assumes "p \<in> set (pairs mwb)" and "overlap_threshold u = thr"
  shows "\<exists>new. tracker (overlap_check (fst p) (snd p) u) = tracker u @ new \<and>
         (\<forall>i \<in> set new. issue_justified hw hh thr mwb i)"
proof (cases "overlap_triggered (overlap_threshold u) p \<and>
         sort [mob_label (fst (fst p)), mob_label (fst (snd p))] \<notin> reported_overlaps u")
  case True
  let ?i = "(if overlap_ratio (snd (fst p)) (snd (snd p)) > 0.6 then ERROR else WARN,
                 scene_name u, step u,
                 OVERLAP_msg (overlap_ratio (snd (fst p)) (snd (snd p)))
                   (mob_label (fst (fst p))) (mob_label (fst (snd p))))"
  have "tracker (overlap_check (fst p) (snd p) u) = tracker u @ [?i]"
    using True by (subst overlap_check_alt) (simp del: sort_key_simps)
  moreover have "issue_justified hw hh thr mwb ?i"
    unfolding issue_justified_def list_ex_iff using assms True
    by (auto intro!: bexI[of _ p])
  ultimately show ?thesis by auto
next
  case False
  have "overlap_check (fst p) (snd p) u = u"
    by (subst overlap_check_alt) (rule if_not_P[OF False])
  then show ?thesis by simp
qed

lemma fold_justified:
  assumes "\<And>x u. x \<in> set xs \<Longrightarrow> I u \<Longrightarrow>
             I (f x u) \<and> (\<exists>new. tracker (f x u) = tracker u @ new \<and> (\<forall>i \<in> set new. P i))"
    and "I v"
  shows "I (fold f xs v) \<and> (\<exists>new. tracker (fold f xs v) = tracker v @ new \<and> (\<forall>i \<in> set new. P i))"
  using assms
proof (induction xs arbitrary: v)
  case Nil
  then show ?case by simp
next
  case (Cons x xs)
  have st: "I (f x v)" and "\<exists>new. tracker (f x v) = tracker v @ new \<and> (\<forall>i \<in> set new. P i)"
    using Cons.prems(1)[of x v] Cons.prems(2) by simp_all
  then obtain n1 where n1: "tracker (f x v) = tracker v @ n1" "\<forall>i \<in> set n1. P i" by blast
  have "I (fold f xs (f x v)) \<and>
        (\<exists>new. tracker (fold f xs (f x v)) = tracker (f x v) @ new \<and> (\<forall>i \<in> set new. P i))"
    by (rule Cons.IH) (use Cons.prems(1) st in auto)
  then obtain n2 where n2: "I (fold f xs (f x v))"
    "tracker (fold f xs (f x v)) = tracker (f x v) @ n2" "\<forall>i \<in> set n2. P i" by blast
  have "tracker (fold f (x # xs) v) = tracker v @ (n1 @ n2)" using n1(1) n2(2) by simp
  moreover have "\<forall>i \<in> set (n1 @ n2). P i" using n1(2) n2(3) by auto
  ultimately show ?case using n2(1) by auto
qed

lemma check_frame_mobs_justified:
  "\<exists>new. tracker (check_frame_mobs hw hh mobs v) = tracker v @ new \<and>
         (\<forall>i \<in> set new. issue_justified hw hh (overlap_threshold v) (mobs_with_bbox mobs) i)"
proof -
  let ?mwb = "mobs_with_bbox mobs"
  let ?thr = "overlap_threshold v"
  let ?P = "issue_justified hw hh ?thr ?mwb"
  let ?u = "fold (oob_check hw hh) ?mwb v"
  have "True \<and> (\<exists>new. tracker ?u = tracker v @ new \<and> (\<forall>i \<in> set new. ?P i))"
    by (rule fold_justified[where I = "\<lambda>u. True"]) (use oob_check_justified in auto)
  then obtain n1 where n1: "tracker ?u = tracker v @ n1" "\<forall>i \<in> set n1. ?P i" by blast
  have thr: "overlap_threshold ?u = ?thr"
    using oob_pass_ext[of v hw hh ?mwb] by (simp add: scan_ext_def)
  have step: "overlap_threshold (overlap_check (fst p) (snd p) u) = overlap_threshold u" for p u
    using overlap_check_ext[of u "fst p" "snd p"] by (simp add: scan_ext_def)
  let ?w = "fold (\<lambda>p. overlap_check (fst p) (snd p)) (pairs ?mwb) ?u"
  have "overlap_threshold ?w = ?thr \<and> (\<exists>new. tracker ?w = tracker ?u @ new \<and> (\<forall>i \<in> set new. ?P i))"
    by (rule fold_justified[where I = "\<lambda>u. overlap_threshold u = ?thr"])
       (use overlap_check_justified step thr in auto)
  then obtain n2 where n2: "tracker ?w = tracker ?u @ n2" "\<forall>i \<in> set n2. ?P i" by blast
  have "tracker (check_frame_mobs hw hh mobs v) = tracker v @ (n1 @ n2)"
    using n1(1) n2(1) by (simp add: check_frame_mobs_def overlap_pass_pairs Let_def)
  moreover have "\<forall>i \<in> set (n1 @ n2). ?P i" using n1(2) n2(2) by auto
  ultimately show ?thesis by blast
qed

lemma justified_key:
  assumes "issue_justified hw hh thr (mobs_with_bbox mobs) i"
  shows "issue_key i \<in> frame_keys hw hh thr mobs"
proof -
  obtain sev scene st msg where i: "i = (sev, scene, st, msg)" by (cases i) auto
  show ?thesis
  proof (cases msg)
    case (OOB_msg label bbox violations)
    with assms i obtain mb where mb: "mb \<in> set (mobs_with_bbox mobs)" "snd mb = bbox"
      "mob_label (fst mb) = label" "violations = is_oob hw hh bbox" "violations \<noteq> []"
      by (auto simp: issue_justified_def list_ex_iff)
    have "oob_triggered hw hh mb" using mb by (simp add: oob_triggered_def)
    moreover have "issue_key i = oob_key hw hh mb"
      using i OOB_msg mb by (simp add: oob_key_def)
    ultimately have "issue_key i \<in> set (map (oob_key hw hh)
        (filter (oob_triggered hw hh) (mobs_with_bbox mobs)))"
      using mb(1) by auto
    then show ?thesis by (simp add: frame_keys_def Let_def)
  next
    case (OVERLAP_msg ratio l1 l2)
    with assms i obtain p where p: "p \<in> set (pairs (mobs_with_bbox mobs))"
      "overlap_triggered thr p" "mob_label (fst (fst p)) = l1" "mob_label (fst (snd p)) = l2"
      by (auto simp: issue_justified_def list_ex_iff)
    have "issue_key i = overlap_key p"
      using i OVERLAP_msg p by (simp add: overlap_key_def del: sort_key_simps)
    then have "issue_key i \<in> set (map overlap_key
        (filter (overlap_triggered thr) (pairs (mobs_with_bbox mobs))))"
      using p(1,2) by auto
    then show ?thesis by (simp add: frame_keys_def Let_def)
  next
    case (CONSTRUCT_msg e)
    with assms i show ?thesis by (simp add: issue_justified_def)
  qed
qed

lemma check_frame_mobs_keys:
  "set (map issue_key (new_issues v (check_frame_mobs hw hh mobs v))) =
     frame_keys hw hh (overlap_threshold v) mobs - keys_of v"
proof -
  let ?v' = "check_frame_mobs hw hh mobs v"
  obtain new where new: "tracker ?v' = tracker v @ new"
    "\<forall>i \<in> set new. issue_justified hw hh (overlap_threshold v) (mobs_with_bbox mobs) i"
    using check_frame_mobs_justified by blast
  have ni: "new_issues v ?v' = new" using new(1) by (rule new_issues_append)
  from check_frame_mobs_ext[of v hw hh mobs] obtain n' where
    n': "tracker ?v' = tracker v @ n'" "set (map issue_key n') = keys_of ?v' - keys_of v"
    unfolding scan_ext_def by blast
  have "n' = new" using n'(1) new(1) by simp
  then have eq: "set (map issue_key new) = keys_of ?v' - keys_of v" using n'(2) by simp
  have sub: "set (map issue_key new) \<subseteq> frame_keys hw hh (overlap_threshold v) mobs"
    using new(2) justified_key by auto
  have "frame_keys hw hh (overlap_threshold v) mobs \<subseteq> keys_of ?v'"
    by (rule check_frame_mobs_reports)
  then show ?thesis unfolding ni using eq sub by blast
qed

lemma mobs_with_bbox_drop:
  "get_bbox m = None \<Longrightarrow> mobs_with_bbox (pre @ m # post) = mobs_with_bbox (pre @ post)"
  by (simp add: mobs_with_bbox_def)

lemma mobs_with_bbox_set: "(m, b) \<in> set (mobs_with_bbox mobs) \<longleftrightarrow> m \<in> set mobs \<and> get_bbox m = Some b"
proof (induction mobs)
  case Nil
  show ?case by (simp add: mobs_with_bbox_def)
next
  case (Cons x xs)
  have "mobs_with_bbox (x # xs) = mobs_with_bbox [x] @ mobs_with_bbox xs"
    by (simp add: mobs_with_bbox_def)
  then show ?case using Cons.IH
    by (cases "get_bbox x") (auto simp: mobs_with_bbox_def)
qed

lemma get_bbox_nondegenerate:
  "get_bbox m = Some (l, r, b, t) \<Longrightarrow> \<not> (r - l < 1 / 100000 \<or> t - b < 1 / 100000)"
  by (auto simp: get_bbox_def Let_def split: if_splits option.splits)

lemma get_bbox_degenerate:
  "(\<not> has_points (attrs m) \<and> submobjects m = []) \<or>
   (\<exists>l r b t. corner_UL (attrs m) = Some (l, t) \<and> corner_DR (attrs m) = Some (r, b) \<and>
      (r - l < 1 / 100000 \<or> t - b < 1 / 100000)) \<Longrightarrow> get_bbox m = None"
  by (auto simp: get_bbox_def Let_def split: if_splits option.splits)

lemma check_frame_new_issues:
  "tracker (check_frame fw scene final v) = tracker v @ new_issues v (check_frame fw scene final v) \<and>
   (\<forall>i \<in> set (new_issues v (check_frame fw scene final v)).
      issue_justified (HALF_W fw) (HALF_H fw) (overlap_threshold v)
        (mobs_with_bbox (mobjects fw scene)) i) \<and>
   distinct (map issue_key (new_issues v (check_frame fw scene final v))) \<and>
   set (map issue_key (new_issues v (check_frame fw scene final v))) =
     frame_keys (HALF_W fw) (HALF_H fw) (overlap_threshold v) (mobjects fw scene) - keys_of v"
proof -
  let ?v' = "check_frame_mobs (HALF_W fw) (HALF_H fw) (mobjects fw scene) v"
  obtain new where new: "tracker ?v' = tracker v @ new"
    "\<forall>i \<in> set new. issue_justified (HALF_W fw) (HALF_H fw) (overlap_threshold v)
        (mobs_with_bbox (mobjects fw scene)) i"
    using check_frame_mobs_justified by blast
  have ni: "new_issues v ?v' = new" using new(1) by (rule new_issues_append)
  from check_frame_mobs_ext[of v "HALF_W fw" "HALF_H fw" "mobjects fw scene"] obtain n'
    where n': "tracker ?v' = tracker v @ n'" "distinct (map issue_key n')"
    unfolding scan_ext_def by blast
  have "n' = new" using n'(1) new(1) by simp
  then have d: "distinct (map issue_key new)" using n'(2) by simp
  show ?thesis
    unfolding check_frame_def ni
    using new d check_frame_mobs_keys[of v "HALF_W fw" "HALF_H fw" "mobjects fw scene"] ni
    by simp
qed

text \<open>
  C2, as the code has it. What a scan adds to the tracker is exactly one issue for every
  key the frame triggers that was not reported before in the scene run. Every issue
  added reports an element of the frame with a violated edge, as ERROR, or a pair of
  elements unrelated by ancestry whose ratio exceeds the configured threshold, as ERROR
  when that ratio exceeds 0.6 and as WARN otherwise. A ratio that does not exceed the
  threshold triggers nothing, also when it exceeds 0.6.
\<close>

theorem check_frame_severity:
  "tracker (check_frame fw scene final v) = tracker v @ new_issues v (check_frame fw scene final v) \<and>
   (\<forall>i \<in> set (new_issues v (check_frame fw scene final v)).
      issue_justified (HALF_W fw) (HALF_H fw) (overlap_threshold v)
        (mobs_with_bbox (mobjects fw scene)) i) \<and>
   distinct (map issue_key (new_issues v (check_frame fw scene final v))) \<and>
   set (map issue_key (new_issues v (check_frame fw scene final v))) =
     frame_keys (HALF_W fw) (HALF_H fw) (overlap_threshold v) (mobjects fw scene) - keys_of v"
  by (rule check_frame_new_issues)

lemma ex_ab_scan:
  "new_issues (ex_validator 0.3) (check_frame ex_fw [ex_a, ex_b] False (ex_validator 0.3)) =
     [(ERROR, py_str ''Scene1'', 0, OVERLAP_msg 1 (py_str ''A'') (py_str ''B''))]"
  by code_simp

theorem check_frame_severity_witness:
  "new_issues (ex_validator 0.3) (check_frame ex_fw [ex_a, ex_b] False (ex_validator 0.3)) =
     [(ERROR, py_str ''Scene1'', 0, OVERLAP_msg 1 (py_str ''A'') (py_str ''B''))] \<and>
   issue_justified 7.11 4 0.3 (mobs_with_bbox [ex_a, ex_b])
     (ERROR, py_str ''Scene1'', 0, OVERLAP_msg 1 (py_str ''A'') (py_str ''B''))"
  using check_frame_severity[of ex_fw "[ex_a, ex_b]" False "ex_validator 0.3"] ex_ab_scan
  by (simp add: ex_fw_def ex_validator_def)

text \<open>
  The claim as written fails: with threshold 0.9, two unrelated elements whose ratio is
  0.7 are scanned and nothing is reported.
\<close>

theorem threshold_gate_counterexample:
  "overlap_ratio (0, 1, 0, 1) (0.3, 1.3, 0, 1) > 0.6 \<and>
   \<not> is_ancestor ex_p ex_q \<and> \<not> is_ancestor ex_q ex_p \<and>
   get_bbox ex_p = Some (0, 1, 0, 1) \<and> get_bbox ex_q = Some (0.3, 1.3, 0, 1) \<and>
   tracker (check_frame ex_fw [ex_p, ex_q] False (ex_validator 0.9)) = []"
  by code_simp

section \<open>Degenerate boxes\<close>

text \<open>
  C5. An element without points and without children, or whose box is narrower or lower
  than 1e-5, has no box; a scan of a frame gives the same result with such an element
  as without it; and no out-of-bounds issue a scan adds carries a degenerate box.
\<close>

theorem degenerate_excluded:
  "((\<not> has_points (attrs m) \<and> submobjects m = []) \<or>
    (\<exists>l r b t. corner_UL (attrs m) = Some (l, t) \<and> corner_DR (attrs m) = Some (r, b) \<and>
       (r - l < 1 / 100000 \<or> t - b < 1 / 100000)) \<longrightarrow> get_bbox m = None) \<and>
   (get_bbox m = None \<and> mobjects fw scene = pre @ m # post \<and> mobjects fw scene' = pre @ post
      \<longrightarrow> check_frame fw scene final v = check_frame fw scene' final v) \<and>
   (\<forall>i \<in> set (new_issues v (check_frame fw scene final v)). \<forall>label l r b t viols.
      snd (snd (snd i)) = OOB_msg label (l, r, b, t) viols
        \<longrightarrow> \<not> (r - l < 1 / 100000 \<or> t - b < 1 / 100000))"
proof -
  have a: "get_bbox m = None \<and> mobjects fw scene = pre @ m # post \<and> mobjects fw scene' = pre @ post
      \<longrightarrow> check_frame fw scene final v = check_frame fw scene' final v"
    by (simp add: check_frame_def check_frame_mobs_def mobs_with_bbox_drop)
  have b: "\<not> (r - l < 1 / 100000 \<or> t - b < 1 / 100000)"
    if i: "i \<in> set (new_issues v (check_frame fw scene final v))"
      and m: "snd (snd (snd i)) = OOB_msg label (l, r, b, t) viols" for i label l r b t viols
  proof -
    have "issue_justified (HALF_W fw) (HALF_H fw) (overlap_threshold v)
        (mobs_with_bbox (mobjects fw scene)) i"
      using check_frame_new_issues[of fw scene final v] i by blast
    then obtain mb where "mb \<in> set (mobs_with_bbox (mobjects fw scene))" "snd mb = (l, r, b, t)"
      using m by (cases i) (auto simp: issue_justified_def list_ex_iff)
    then have "(fst mb, (l, r, b, t)) \<in> set (mobs_with_bbox (mobjects fw scene))"
      by (metis prod.collapse)
    then have "get_bbox (fst mb) = Some (l, r, b, t)"
      by (simp only: mobs_with_bbox_set)
    then show ?thesis by (rule get_bbox_nondegenerate)
  qed
  show ?thesis using get_bbox_degenerate[of m] a b by blast
qed

lemma ex_left_scan:
  "new_issues (ex_validator 0.3) (check_frame ex_fw [ex_left] False (ex_validator 0.3)) =
     [(ERROR, py_str ''Scene1'', 0, OOB_msg (py_str ''Square'') (-8, -6, -1, 1) [py_str ''LEFT (x=-8.00 < -7.11)''])]"
  by code_simp

theorem degenerate_excluded_witness:
  "corner_UL (attrs ex_thin) = Some (100, 1) \<and> corner_DR (attrs ex_thin) = Some (100, 0) \<and>
   get_bbox ex_thin = None \<and>
   check_frame ex_fw [ex_a, ex_thin] False (ex_validator 0.3) =
     check_frame ex_fw [ex_a] False (ex_validator 0.3) \<and>
   new_issues (ex_validator 0.3) (check_frame ex_fw [ex_left] False (ex_validator 0.3)) =
     [(ERROR, py_str ''Scene1'', 0, OOB_msg (py_str ''Square'') (-8, -6, -1, 1) [py_str ''LEFT (x=-8.00 < -7.11)''])] \<and>
   \<not> ((-6 :: real) - (-8) < 1 / 100000 \<or> (1 :: real) - (-1) < 1 / 100000)"
proof -
  have c: "corner_UL (attrs ex_thin) = Some (100, 1)" "corner_DR (attrs ex_thin) = Some (100, 0)"
    by (simp_all add: ex_thin_def box_mob_def)
  have g: "get_bbox ex_thin = None"
    using degenerate_excluded[where m = ex_thin] c by force
  have s: "check_frame ex_fw [ex_a, ex_thin] False (ex_validator 0.3) =
     check_frame ex_fw [ex_a] False (ex_validator 0.3)"
    using degenerate_excluded[where m = ex_thin and fw = ex_fw and scene = "[ex_a, ex_thin]"
        and scene' = "[ex_a]" and pre = "[ex_a]" and post = "[]"] g
    by (simp add: ex_fw_def)
  show ?thesis
    using c g s ex_left_scan
      degenerate_excluded[where fw = ex_fw and scene = "[ex_left]" and final = False
        and v = "ex_validator 0.3"]
    by simp
qed

section \<open>The intercepted play\<close>

lemma check_frame_ext: "scan_ext v (check_frame fw scene final v)"
  unfolding check_frame_def by (rule check_frame_mobs_ext)

lemma check_frame_step: "step (check_frame fw scene final v) = step v"
  using check_frame_ext[of v fw scene final] by (simp add: scan_ext_def)

lemma play_arg_skipped: "skipped x \<Longrightarrow> play_arg fw x scene = scene"
  by (cases x) (simp_all add: play_arg_def)

lemma fold_play_arg_skipped: "\<forall>x \<in> set args. skipped x \<Longrightarrow> fold (play_arg fw) args scene = scene"
  by (induction args) (simp_all add: play_arg_skipped)

lemma patched_play_eq:
  "patched_play fw args kw (v, scene) =
     (check_frame fw (fold (play_arg fw) args scene) False (v\<lparr>step := step v + 1\<rparr>),
      fold (play_arg fw) args scene)"
  by (simp add: patched_play_def Let_def)

lemma patched_play_step: "step (fst (patched_play fw args kw (v, scene))) = step v + 1"
  by (simp add: patched_play_eq check_frame_step)

text \<open>
  C10. Every call of the intercepted \<open>play\<close> scans the frame once, after its
  arguments are processed and with the step counter raised by one; an argument that is
  no animation, or an animation without target, leaves the scene as it is, so a call
  with only such arguments scans the scene it found.
\<close>

theorem patched_play_one_scan:
  "patched_play fw args kw (v, scene) =
     (check_frame fw (fold (play_arg fw) args scene) False (v\<lparr>step := step v + 1\<rparr>),
      fold (play_arg fw) args scene) \<and>
   step (fst (patched_play fw args kw (v, scene))) = step v + 1 \<and>
   (skipped x \<longrightarrow> play_arg fw x scene = scene) \<and>
   ((\<forall>x \<in> set args. skipped x) \<longrightarrow>
      patched_play fw args kw (v, scene) =
        (check_frame fw scene False (v\<lparr>step := step v + 1\<rparr>), scene))"
  using patched_play_eq[of fw args kw v scene] patched_play_step[of fw args kw v scene]
    play_arg_skipped[of x fw scene] fold_play_arg_skipped[of args fw scene]
  by simp

theorem patched_play_one_scan_witness:
  "skipped (Other (PyNum 1) :: (mob list) arg) \<and> skipped (Anim ex_no_target) \<and>
   patched_play ex_fw [Other (PyNum 1), Anim ex_no_target] [] (ex_validator 0.3, [ex_left]) =
     (check_frame ex_fw [ex_left] False ((ex_validator 0.3)\<lparr>step := 1\<rparr>), [ex_left]) \<and>
   step (fst (patched_play ex_fw [Other (PyNum 1), Anim ex_no_target] [] (ex_validator 0.3, [ex_left]))) = 1 \<and>
   tracker (fst (patched_play ex_fw [Other (PyNum 1), Anim ex_no_target] [] (ex_validator 0.3, [ex_left]))) =
     [(ERROR, py_str ''Scene1'', 1, OOB_msg (py_str ''Square'') (-8, -6, -1, 1) [py_str ''LEFT (x=-8.00 < -7.11)''])]"
proof -
  have s: "skipped (Other (PyNum 1) :: (mob list) arg)" "skipped (Anim ex_no_target)"
    by (simp_all add: ex_no_target_def)
  have t: "tracker (check_frame ex_fw [ex_left] False ((ex_validator 0.3)\<lparr>step := 1\<rparr>)) =
     [(ERROR, py_str ''Scene1'', 1, OOB_msg (py_str ''Square'') (-8, -6, -1, 1) [py_str ''LEFT (x=-8.00 < -7.11)''])]"
    by code_simp
  have st: "step (ex_validator 0.3) = 0" by (simp add: ex_validator_def)
  show ?thesis
    using s t st patched_play_one_scan[where fw = ex_fw and args = "[Other (PyNum 1), Anim ex_no_target]"
        and kw = "[]" and v = "ex_validator 0.3" and scene = "[ex_left]"]
    by (simp add: check_frame_step)
qed

lemma lifecycle_raises:
  assumes "anim_setup_scene a s0 = Raised e s_err \<or>
     (\<exists>s1. anim_setup_scene a s0 = Done s1 \<and>
        (anim_begin a s1 = Raised e s_err \<or>
         (\<exists>s2. anim_begin a s1 = Done s2 \<and>
            (anim_interpolate a 1 s2 = Raised e s_err \<or>
             (\<exists>s3. anim_interpolate a 1 s2 = Done s3 \<and> anim_finish a s3 = Raised e s_err)))))"
  shows "lifecycle a s0 = Raised e s_err"
  using assms by (auto simp: lifecycle_def)

lemma play_arg_raised:
  "mobject a = Some m \<Longrightarrow> lifecycle a (add_if_absent fw m scene) = Raised e s_err \<Longrightarrow>
   play_arg fw (Anim a) scene = add_if_absent fw m s_err"
  by (simp add: play_arg_def Let_def)

text \<open>
  C7. Let an animation with a target fail in any of its four stages (setup, begin,
  interpolation to 1.0, finish), after the animations \<open>pre\<close> of the same batch. Then
  the call of \<open>play\<close> still processes the animations \<open>post\<close> that follow, from the
  state the failing stage left (with the target added again if it is absent), raises
  the step counter by one and scans the frame.
\<close>

theorem failing_animation_caught:
  assumes "mobject a = Some m"
    and "anim_setup_scene a (add_if_absent fw m (fold (play_arg fw) pre scene)) = Raised e s_err \<or>
     (\<exists>s1. anim_setup_scene a (add_if_absent fw m (fold (play_arg fw) pre scene)) = Done s1 \<and>
        (anim_begin a s1 = Raised e s_err \<or>
         (\<exists>s2. anim_begin a s1 = Done s2 \<and>
            (anim_interpolate a 1 s2 = Raised e s_err \<or>
             (\<exists>s3. anim_interpolate a 1 s2 = Done s3 \<and> anim_finish a s3 = Raised e s_err)))))"
  shows "patched_play fw (pre @ Anim a # post) kw (v, scene) =
           (check_frame fw (fold (play_arg fw) post (add_if_absent fw m s_err)) False
              (v\<lparr>step := step v + 1\<rparr>),
            fold (play_arg fw) post (add_if_absent fw m s_err)) \<and>
         step (fst (patched_play fw (pre @ Anim a # post) kw (v, scene))) = step v + 1"
proof -
  have "lifecycle a (add_if_absent fw m (fold (play_arg fw) pre scene)) = Raised e s_err"
    using assms(2) by (rule lifecycle_raises)
  then have "play_arg fw (Anim a) (fold (play_arg fw) pre scene) = add_if_absent fw m s_err"
    using assms(1) by (rule play_arg_raised[rotated])
  then have "fold (play_arg fw) (pre @ Anim a # post) scene =
      fold (play_arg fw) post (add_if_absent fw m s_err)"
    by simp
  then show ?thesis
    using patched_play_eq[of fw "pre @ Anim a # post" kw v scene]
      patched_play_step[of fw "pre @ Anim a # post" kw v scene]
    by simp
qed

theorem failing_animation_caught_witness:
  "mobject ex_failing = Some 5 \<and>
   anim_setup_scene ex_failing [box_mob 5 ''Square'' (0, 1, 0, 1) []] =
     Done [box_mob 5 ''Square'' (0, 1, 0, 1) []] \<and>
   anim_begin ex_failing [box_mob 5 ''Square'' (0, 1, 0, 1) []] =
     Raised (py_str ''begin failed'') [box_mob 5 ''Square'' (0, 1, 0, 1) []] \<and>
   snd (patched_play ex_fw [Anim ex_failing, Anim ex_fade_in] [] (ex_validator 0.3, [])) =
     [box_mob 5 ''Square'' (0, 1, 0, 1) [], box_mob 6 ''Square'' (0, 1, 0, 1) []] \<and>
   step (fst (patched_play ex_fw [Anim ex_failing, Anim ex_fade_in] [] (ex_validator 0.3, []))) = 1 \<and>
   tracker (fst (patched_play ex_fw [Anim ex_failing, Anim ex_fade_in] [] (ex_validator 0.3, []))) =
     [(ERROR, py_str ''Scene1'', 1, OVERLAP_msg 1 (py_str ''Square'') (py_str ''Square''))]"
proof -
  let ?sq = "box_mob 5 ''Square'' (0, 1, 0, 1) []"
  have m: "mobject ex_failing = Some 5" by (simp add: ex_failing_def)
  have a0: "add_if_absent ex_fw 5 (fold (play_arg ex_fw) [] []) = [?sq]"
    by (simp add: add_if_absent_def in_scene_def ex_fw_def)
  have s: "anim_setup_scene ex_failing [?sq] = Done [?sq]"
    and b: "anim_begin ex_failing [?sq] = Raised (py_str ''begin failed'') [?sq]"
    by (simp_all add: ex_failing_def)
  have hyp: "anim_setup_scene ex_failing (add_if_absent ex_fw 5 (fold (play_arg ex_fw) [] [])) =
        Raised (py_str ''begin failed'') [?sq] \<or>
     (\<exists>s1. anim_setup_scene ex_failing (add_if_absent ex_fw 5 (fold (play_arg ex_fw) [] [])) = Done s1 \<and>
        (anim_begin ex_failing s1 = Raised (py_str ''begin failed'') [?sq] \<or>
         (\<exists>s2. anim_begin ex_failing s1 = Done s2 \<and>
            (anim_interpolate ex_failing 1 s2 = Raised (py_str ''begin failed'') [?sq] \<or>
             (\<exists>s3. anim_interpolate ex_failing 1 s2 = Done s3 \<and>
                anim_finish ex_failing s3 = Raised (py_str ''begin failed'') [?sq])))))"
    unfolding a0 using s b by simp
  have post: "fold (play_arg ex_fw) [Anim ex_fade_in] (add_if_absent ex_fw 5 [?sq]) =
      [?sq, box_mob 6 ''Square'' (0, 1, 0, 1) []]"
    by (simp add: play_arg_def ex_fade_in_def lifecycle_def add_if_absent_def in_scene_def
        ex_fw_def box_mob_def)
  have t: "tracker (check_frame ex_fw [?sq, box_mob 6 ''Square'' (0, 1, 0, 1) []] False
       ((ex_validator 0.3)\<lparr>step := 1\<rparr>)) = [(ERROR, py_str ''Scene1'', 1, OVERLAP_msg 1 (py_str ''Square'') (py_str ''Square''))]"
    by code_simp
  have st: "step (ex_validator 0.3) = 0" by (simp add: ex_validator_def)
  show ?thesis
    using failing_animation_caught[OF m hyp, where post = "[Anim ex_fade_in]" and kw = "[]"
        and v = "ex_validator 0.3"] m s b post t st
    by (simp add: check_frame_step)
qed

section \<open>Validation runs\<close>

lemma run_ext_refl: "run_ext v v"
  by (simp add: run_ext_def)

lemma scan_ext_run_ext: "scan_ext v v' \<Longrightarrow> run_ext v v'"
  unfolding scan_ext_def run_ext_def using keys_of_mono by blast

lemma run_ext_trans:
  assumes "run_ext v1 v2" "run_ext v2 v3"
  shows "run_ext v1 v3"
proof -
  from assms(1) obtain n1 where n1: "tracker v2 = tracker v1 @ n1" "distinct (map issue_key n1)"
    "set (map issue_key n1) = keys_of v2 - keys_of v1"
    unfolding run_ext_def by blast
  from assms(2) obtain n2 where n2: "tracker v3 = tracker v2 @ n2" "distinct (map issue_key n2)"
    "set (map issue_key n2) = keys_of v3 - keys_of v2"
    unfolding run_ext_def by blast
  have f: "scene_name v3 = scene_name v1" "overlap_threshold v3 = overlap_threshold v1"
    using assms unfolding run_ext_def by simp_all
  have k: "keys_of v1 \<subseteq> keys_of v2" "keys_of v2 \<subseteq> keys_of v3"
    using assms unfolding run_ext_def by simp_all
  have t: "tracker v3 = tracker v1 @ (n1 @ n2)" using n1(1) n2(1) by simp
  have "set (map issue_key n1) \<inter> set (map issue_key n2) = {}"
    unfolding n1(3) n2(3) by blast
  then have d: "distinct (map issue_key (n1 @ n2))"
    using n1(2) n2(2) by simp
  have "set (map issue_key (n1 @ n2)) = set (map issue_key n1) \<union> set (map issue_key n2)"
    by simp
  also have "\<dots> = keys_of v3 - keys_of v1"
    unfolding n1(3) n2(3) using k by blast
  finally have s: "set (map issue_key (n1 @ n2)) = keys_of v3 - keys_of v1" .
  have ex: "\<exists>new. tracker v3 = tracker v1 @ new \<and> distinct (map issue_key new) \<and>
            set (map issue_key new) = keys_of v3 - keys_of v1"
    using t d s by blast
  have "keys_of v1 \<subseteq> keys_of v3" using k by blast
  then show ?thesis
    unfolding run_ext_def using f ex by simp
qed

lemma keys_of_step [simp]: "keys_of (v\<lparr>step := n\<rparr>) = keys_of v"
  by (simp add: keys_of_def)

lemma run_ext_step: "run_ext v (v\<lparr>step := n\<rparr>)"
  by (simp add: run_ext_def)

lemma patched_play_ext:
  "run_ext v (fst (patched_play fw args kw (v, scene)))"
  unfolding patched_play_eq fst_conv
  using run_ext_trans[OF run_ext_step scan_ext_run_ext[OF check_frame_ext]] .

lemma check_frame_reports:
  "frame_keys (HALF_W fw) (HALF_H fw) (overlap_threshold v) (mobjects fw scene)
     \<subseteq> keys_of (check_frame fw scene final v)"
  unfolding check_frame_def by (rule check_frame_mobs_reports)

lemma patched_play_reports:
  "frame_keys (HALF_W fw) (HALF_H fw) (overlap_threshold v)
     (mobjects fw (snd (patched_play fw args kw (v, scene))))
   \<subseteq> keys_of (fst (patched_play fw args kw (v, scene)))"
  unfolding patched_play_eq fst_conv snd_conv
  using check_frame_reports[of fw "v\<lparr>step := step v + 1\<rparr>"] by simp

lemma run_ext_keys: "run_ext v v' \<Longrightarrow> keys_of v \<subseteq> keys_of v'"
  by (simp add: run_ext_def)

lemma run_ext_thr: "run_ext v v' \<Longrightarrow> overlap_threshold v' = overlap_threshold v"
  by (simp add: run_ext_def)

lemma patched_play_snd:
  "snd (patched_play fw args kw (v, scene)) = fold (play_arg fw) args scene"
  by (simp add: patched_play_eq)

lemma run_construct_ext:
  "run_ext v (fst (snd (run_construct fw cs (v, scene)))) \<and>
   (\<forall>s \<in> set (play_scenes fw cs scene).
      frame_keys (HALF_W fw) (HALF_H fw) (overlap_threshold v) (mobjects fw s)
        \<subseteq> keys_of (fst (snd (run_construct fw cs (v, scene))))) \<and>
   step (fst (snd (run_construct fw cs (v, scene)))) = step v + plays_executed cs"
proof (induction cs arbitrary: v scene)
  case Nil
  show ?case by (simp add: run_ext_refl)
next
  case (Cons c cs)
  show ?case
  proof (cases c)
    case (Play args kw)
    let ?s1 = "patched_play fw args kw (v, scene)"
    let ?v1 = "fst ?s1" and ?w1 = "snd ?s1"
    let ?v' = "fst (snd (run_construct fw cs (?v1, ?w1)))"
    have rc: "run_construct fw (c # cs) (v, scene) = run_construct fw cs (?v1, ?w1)"
      using Play by simp
    have ps: "play_scenes fw (c # cs) scene = ?w1 # play_scenes fw cs ?w1"
      using Play by (simp add: Let_def patched_play_snd)
    note IH = Cons.IH[of ?v1 ?w1]
    have e1: "run_ext v ?v1" by (rule patched_play_ext)
    have e2: "run_ext ?v1 ?v'" using IH by simp
    have thr: "overlap_threshold ?v1 = overlap_threshold v" using e1 by (rule run_ext_thr)
    have a: "run_ext v ?v'" using run_ext_trans[OF e1 e2] .
    have b1: "frame_keys (HALF_W fw) (HALF_H fw) (overlap_threshold v) (mobjects fw ?w1) \<subseteq> keys_of ?v'"
      using patched_play_reports[of fw v args kw scene] run_ext_keys[OF e2] by blast
    have b2: "\<forall>s \<in> set (play_scenes fw cs ?w1).
      frame_keys (HALF_W fw) (HALF_H fw) (overlap_threshold v) (mobjects fw s) \<subseteq> keys_of ?v'"
      using IH thr by simp
    have c: "step ?v' = step v + plays_executed (c # cs)"
      using IH Play patched_play_step[of fw args kw v scene] by simp
    show ?thesis unfolding rc ps using a b1 b2 c by simp
  next
    case (Wait args kw)
    then show ?thesis using Cons.IH[of v scene] by (simp add: patched_wait_def)
  next
    case (Direct f)
    then show ?thesis using Cons.IH[of v "f scene"] by simp
  next
    case (Raise e)
    then show ?thesis by (simp add: run_ext_refl)
  qed
qed

lemma construct_key_not_reported: "CONSTRUCT_key \<notin> keys_of v"
  by (auto simp: keys_of_def)

lemma distinct_count_list_one: "distinct xs \<Longrightarrow> x \<in> set xs \<Longrightarrow> count_list xs x = 1"
  by (induction xs) auto

lemma validate_run:
  fixes fw :: "'w framework"
  shows "\<exists>new. tracker (fst (validate fw sc v)) = tracker v @ new \<and>
           distinct (map issue_key new) \<and>
           keys_of (fst (validate fw sc v)) \<subseteq> set (map issue_key new) \<and>
           (\<forall>frame \<in> set (scanned_frames fw sc v).
              frame_keys (HALF_W fw) (HALF_H fw) (overlap_threshold v) frame
                \<subseteq> keys_of (fst (validate fw sc v)))"
proof -
  let ?v0 = "v\<lparr>step := 0, reported_overlaps := {}, reported_oob := {}\<rparr>"
  let ?rc = "run_construct fw (construct sc) (?v0, new_scene sc)"
  let ?v1 = "fst (snd ?rc)" and ?w = "snd (snd ?rc)"
  let ?c = "(case fst ?rc of None \<Rightarrow> []
             | Some e \<Rightarrow> [(ERROR, scene_name ?v1, step ?v1, CONSTRUCT_msg e)])"
  let ?v2 = "?v1\<lparr>tracker := tracker ?v1 @ ?c\<rparr>"
  let ?v3 = "check_frame fw ?w True ?v2"
  have val: "validate fw sc v = (?v3, ?w)"
    by (cases ?rc) (auto simp: validate_def Let_def add_issue_def split: option.splits)
  have k0: "keys_of ?v0 = {}" by (simp add: keys_of_def)
  note rc = run_construct_ext[of ?v0 fw "construct sc" "new_scene sc"]
  from rc obtain n1 where n1: "tracker ?v1 = tracker v @ n1" "distinct (map issue_key n1)"
    "set (map issue_key n1) = keys_of ?v1"
    unfolding run_ext_def k0 by auto
  have thr1: "overlap_threshold ?v1 = overlap_threshold v"
    using rc unfolding run_ext_def by simp
  have k2: "keys_of ?v2 = keys_of ?v1" by (simp add: keys_of_def)
  have thr2: "overlap_threshold ?v2 = overlap_threshold v" using thr1 by simp
  have kc: "set (map issue_key ?c) \<subseteq> {CONSTRUCT_key}" "distinct (map issue_key ?c)"
    by (auto split: option.splits)
  from check_frame_ext[of ?v2 fw ?w True] obtain n3 where
    n3: "tracker ?v3 = tracker ?v2 @ n3" "distinct (map issue_key n3)"
    "set (map issue_key n3) = keys_of ?v3 - keys_of ?v1"
    unfolding scan_ext_def k2 by blast
  have k13: "keys_of ?v1 \<subseteq> keys_of ?v3"
    using scan_ext_keys[OF check_frame_ext[of ?v2 fw ?w True]] k2 by simp
  let ?new = "n1 @ ?c @ n3"
  have t: "tracker ?v3 = tracker v @ ?new"
    using n1(1) n3(1) by simp
  have nc1: "CONSTRUCT_key \<notin> set (map issue_key n1)"
    unfolding n1(3) by (rule construct_key_not_reported)
  have nc3: "CONSTRUCT_key \<notin> set (map issue_key n3)"
    unfolding n3(3) using construct_key_not_reported by blast
  have d13: "set (map issue_key n1) \<inter> set (map issue_key n3) = {}"
    unfolding n1(3) n3(3) by blast
  have d1c: "set (map issue_key n1) \<inter> set (map issue_key ?c) = {}"
    using nc1 kc(1) by blast
  have dc3: "set (map issue_key ?c) \<inter> set (map issue_key n3) = {}"
    using nc3 kc(1) by blast
  have d: "distinct (map issue_key ?new)"
    using n1(2) n3(2) kc(2) d13 d1c dc3 by (simp add: Int_Un_distrib Int_Un_distrib2)
  have ks: "keys_of ?v3 \<subseteq> set (map issue_key ?new)"
    using n1(3) n3(3) k13 by auto
  have fr1: "\<forall>s \<in> set (play_scenes fw (construct sc) (new_scene sc)).
      frame_keys (HALF_W fw) (HALF_H fw) (overlap_threshold v) (mobjects fw s) \<subseteq> keys_of ?v3"
    using rc k13 by auto
  have fr2: "frame_keys (HALF_W fw) (HALF_H fw) (overlap_threshold v) (mobjects fw ?w) \<subseteq> keys_of ?v3"
    using check_frame_reports[of fw ?v2 ?w True] thr2 by simp
  have fr: "\<forall>frame \<in> set (scanned_frames fw sc v).
      frame_keys (HALF_W fw) (HALF_H fw) (overlap_threshold v) frame \<subseteq> keys_of ?v3"
    unfolding scanned_frames_def val snd_conv using fr1 fr2 by auto
  show ?thesis
    unfolding val fst_conv using t d ks fr by blast
qed

text \<open>
  C1, as the code has it. The key of an out-of-bounds finding is the label with the
  list of violation texts, and each text holds the edge together with the offending
  coordinate and the limit, with two decimals. Within one validation run the issues
  added have pairwise different keys, and every key that any scanned frame of the run
  triggers is the key of exactly one issue, however many frames trigger it.
\<close>

theorem validate_dedup:
  fixes fw :: "'w framework"
  shows "tracker (fst (validate fw sc v)) = tracker v @ new_issues v (fst (validate fw sc v)) \<and>
   distinct (map issue_key (new_issues v (fst (validate fw sc v)))) \<and>
   (\<forall>frame \<in> set (scanned_frames fw sc v).
      \<forall>k \<in> frame_keys (HALF_W fw) (HALF_H fw) (overlap_threshold v) frame.
        count_list (map issue_key (new_issues v (fst (validate fw sc v)))) k = 1)"
proof -
  obtain new where new: "tracker (fst (validate fw sc v)) = tracker v @ new"
    "distinct (map issue_key new)"
    "keys_of (fst (validate fw sc v)) \<subseteq> set (map issue_key new)"
    "\<forall>frame \<in> set (scanned_frames fw sc v).
        frame_keys (HALF_W fw) (HALF_H fw) (overlap_threshold v) frame
          \<subseteq> keys_of (fst (validate fw sc v))"
    using validate_run[of fw sc v] by blast
  have ni: "new_issues v (fst (validate fw sc v)) = new"
    using new(1) by (rule new_issues_append)
  have "count_list (map issue_key new) k = 1"
    if "frame \<in> set (scanned_frames fw sc v)"
      and "k \<in> frame_keys (HALF_W fw) (HALF_H fw) (overlap_threshold v) frame" for frame k
  proof -
    have "k \<in> set (map issue_key new)" using that new(3,4) by blast
    then show ?thesis using new(2) by (rule distinct_count_list_one[rotated])
  qed
  then show ?thesis unfolding ni using new(1,2) by blast
qed

lemma ex_scene_run:
  "tracker (fst (validate ex_fw ex_scene (ex_validator 0.3))) =
     [(ERROR, py_str ''Scene1'', 1, OOB_msg (py_str ''Square'') (-8, -6, -1, 1) [py_str ''LEFT (x=-8.00 < -7.11)'']),
      (ERROR, py_str ''Scene1'', 2, OOB_msg (py_str ''Square'') (-9, -7, -1, 1) [py_str ''LEFT (x=-9.00 < -7.11)''])]"
  by code_simp

text \<open>
  The claim as written fails: an element with the same label violates the same edge in
  two steps, at different coordinates, and is reported twice.
\<close>

theorem oob_key_coordinates_counterexample:
  "tracker (fst (validate ex_fw ex_scene (ex_validator 0.3))) =
     [(ERROR, py_str ''Scene1'', 1, OOB_msg (py_str ''Square'') (-8, -6, -1, 1) [py_str ''LEFT (x=-8.00 < -7.11)'']),
      (ERROR, py_str ''Scene1'', 2, OOB_msg (py_str ''Square'') (-9, -7, -1, 1) [py_str ''LEFT (x=-9.00 < -7.11)''])] \<and>
   map violated_edge (is_oob 7.11 4 (-8, -6, -1, 1)) = [py_str ''LEFT''] \<and>
   map violated_edge (is_oob 7.11 4 (-9, -7, -1, 1)) = [py_str ''LEFT'']"
  by code_simp

lemma ex_scene_frames:
  "scanned_frames ex_fw ex_scene (ex_validator 0.3) =
     [[box_mob 40 ''Square'' (-8, -6, -1, 1) []], [box_mob 40 ''Square'' (-9, -7, -1, 1) []],
      [box_mob 40 ''Square'' (-9, -7, -1, 1) []]]"
  by code_simp

lemma ex_frame_keys:
  "frame_keys 7.11 4 0.3 [box_mob 40 ''Square'' (-9, -7, -1, 1) []] =
     {OOB_key (py_str ''Square'') [py_str ''LEFT (x=-9.00 < -7.11)'']}"
  by code_simp

theorem validate_dedup_witness:
  "[box_mob 40 ''Square'' (-9, -7, -1, 1) []] \<in> set (scanned_frames ex_fw ex_scene (ex_validator 0.3)) \<and>
   OOB_key (py_str ''Square'') [py_str ''LEFT (x=-9.00 < -7.11)'']
     \<in> frame_keys 7.11 4 0.3 [box_mob 40 ''Square'' (-9, -7, -1, 1) []] \<and>
   count_list (map issue_key (new_issues (ex_validator 0.3)
       (fst (validate ex_fw ex_scene (ex_validator 0.3)))))
     (OOB_key (py_str ''Square'') [py_str ''LEFT (x=-9.00 < -7.11)'']) = 1"
proof -
  have h: "HALF_W ex_fw = 7.11" "HALF_H ex_fw = 4" "overlap_threshold (ex_validator 0.3) = 0.3"
    by (simp_all add: ex_fw_def ex_validator_def)
  have f: "[box_mob 40 ''Square'' (-9, -7, -1, 1) []] \<in> set (scanned_frames ex_fw ex_scene (ex_validator 0.3))"
    unfolding ex_scene_frames by simp
  have k: "OOB_key (py_str ''Square'') [py_str ''LEFT (x=-9.00 < -7.11)'']
     \<in> frame_keys 7.11 4 0.3 [box_mob 40 ''Square'' (-9, -7, -1, 1) []]"
    unfolding ex_frame_keys by simp
  show ?thesis
    using validate_dedup[of ex_fw ex_scene "ex_validator 0.3"] f k unfolding h by blast
qed

section \<open>Step counter and verdict\<close>

lemma validate_step: "step (fst (validate fw sc v)) = plays_executed (construct sc)"
proof -
  let ?v0 = "v\<lparr>step := 0, reported_overlaps := {}, reported_oob := {}\<rparr>"
  let ?rc = "run_construct fw (construct sc) (?v0, new_scene sc)"
  have "step (fst (snd ?rc)) = plays_executed (construct sc)"
    using run_construct_ext[of ?v0 fw "construct sc" "new_scene sc"] by simp
  then show ?thesis
    by (cases ?rc) (auto simp: validate_def Let_def check_frame_step split: option.splits)
qed

lemma new_issues_step: "new_issues (v\<lparr>step := n\<rparr>) v' = new_issues v v'"
  by (simp add: new_issues_def)

lemma check_frame_issue_step:
  "\<forall>i \<in> set (new_issues v (check_frame fw scene final v)). fst (snd (snd i)) = step v"
proof -
  from check_frame_ext[of v fw scene final] obtain new where
    "tracker (check_frame fw scene final v) = tracker v @ new"
    "\<forall>i \<in> set new. fst (snd i) = scene_name v \<and> fst (snd (snd i)) = step v"
    unfolding scan_ext_def by blast
  then show ?thesis by (simp add: new_issues_def)
qed

lemma patched_play_issue_step:
  "\<forall>i \<in> set (new_issues v (fst (patched_play fw args kw (v, scene)))). fst (snd (snd i)) = step v + 1"
  unfolding patched_play_eq fst_conv
  using check_frame_issue_step[of "v\<lparr>step := step v + 1\<rparr>" fw "fold (play_arg fw) args scene" False]
  by (simp add: new_issues_step)

lemma validate_final_scan:
  "fst (validate fw sc v) =
     check_frame fw (snd (validate fw sc v)) True (before_final_scan fw sc v)"
  by (cases "run_construct fw (construct sc)
        (v\<lparr>step := 0, reported_overlaps := {}, reported_oob := {}\<rparr>, new_scene sc)")
     (auto simp: validate_def before_final_scan_def Let_def split: option.splits)

lemma before_final_scan_step:
  "step (before_final_scan fw sc v) = plays_executed (construct sc)"
proof -
  let ?v0 = "v\<lparr>step := 0, reported_overlaps := {}, reported_oob := {}\<rparr>"
  let ?rc = "run_construct fw (construct sc) (?v0, new_scene sc)"
  have "step (fst (snd ?rc)) = plays_executed (construct sc)"
    using run_construct_ext[of ?v0 fw "construct sc" "new_scene sc"] by simp
  then show ?thesis
    by (cases ?rc) (auto simp: before_final_scan_def Let_def split: option.splits)
qed

lemma final_scan_issue_step:
  "\<forall>i \<in> set (new_issues (before_final_scan fw sc v) (fst (validate fw sc v))).
     fst (snd (snd i)) = plays_executed (construct sc)"
  unfolding validate_final_scan[of fw sc v]
  using check_frame_issue_step[of "before_final_scan fw sc v" fw "snd (validate fw sc v)" True]
  by (simp add: before_final_scan_step)

text \<open>
  C3, as the code has it. A validation run sets the step counter to 0 and ends with it
  equal to the number of \<open>play\<close> calls made; each call raises it by one before its
  scan, so the issues of that scan carry the raised value; a scan itself, the final one
  included, leaves the counter as it is; and the final scan is made with the counter at
  the number of \<open>play\<close> calls, so the issues it adds carry the step of the last
  \<open>play\<close> call.
\<close>

theorem step_counts_play_batches:
  "step (fst (validate fw sc v)) = plays_executed (construct sc) \<and>
   step (fst (snd (run_construct fw cs (u, scene)))) = step u + plays_executed cs \<and>
   step (fst (patched_play fw args kw (u, scene))) = step u + 1 \<and>
   (\<forall>i \<in> set (new_issues u (fst (patched_play fw args kw (u, scene)))).
      fst (snd (snd i)) = step u + 1) \<and>
   step (check_frame fw scene final u) = step u \<and>
   fst (validate fw sc v) =
     check_frame fw (snd (validate fw sc v)) True (before_final_scan fw sc v) \<and>
   step (before_final_scan fw sc v) = plays_executed (construct sc) \<and>
   (\<forall>i \<in> set (new_issues (before_final_scan fw sc v) (fst (validate fw sc v))).
      fst (snd (snd i)) = plays_executed (construct sc))"
  using validate_step[of fw sc v] run_construct_ext[of u fw cs scene]
    patched_play_step[of fw args kw u scene] patched_play_issue_step[of u fw args kw scene]
    check_frame_step[of fw scene final u]
    validate_final_scan[of fw sc v] before_final_scan_step[of fw sc v]
    final_scan_issue_step[of fw sc v]
  by simp

theorem step_counts_play_batches_witness:
  "new_issues (ex_validator 0.3) (fst (patched_play ex_fw [] [] (ex_validator 0.3, [ex_left]))) =
     [(ERROR, py_str ''Scene1'', 1, OOB_msg (py_str ''Square'') (-8, -6, -1, 1)
        [py_str ''LEFT (x=-8.00 < -7.11)''])] \<and>
   step (ex_validator 0.3) + 1 = 1 \<and>
   step (fst (validate ex_fw ex_scene (ex_validator 0.3))) = 2 \<and>
   plays_executed (construct ex_late) = 1 \<and>
   new_issues (before_final_scan ex_fw ex_late (ex_validator 0.3))
       (fst (validate ex_fw ex_late (ex_validator 0.3))) =
     [(ERROR, py_str ''Scene1'', 1, OOB_msg (py_str ''Square'') (-8, -6, -1, 1)
        [py_str ''LEFT (x=-8.00 < -7.11)''])]"
proof -
  have n: "new_issues (ex_validator 0.3) (fst (patched_play ex_fw [] [] (ex_validator 0.3, [ex_left]))) =
     [(ERROR, py_str ''Scene1'', 1, OOB_msg (py_str ''Square'') (-8, -6, -1, 1)
        [py_str ''LEFT (x=-8.00 < -7.11)''])]"
    by code_simp
  have m: "new_issues (before_final_scan ex_fw ex_late (ex_validator 0.3))
       (fst (validate ex_fw ex_late (ex_validator 0.3))) =
     [(ERROR, py_str ''Scene1'', 1, OOB_msg (py_str ''Square'') (-8, -6, -1, 1)
        [py_str ''LEFT (x=-8.00 < -7.11)''])]"
    by code_simp
  have p: "plays_executed (construct ex_scene) = 2" "plays_executed (construct ex_late) = 1"
    by (simp_all add: ex_scene_def ex_late_def)
  show ?thesis
    using n m p
      step_counts_play_batches[where fw = ex_fw and sc = ex_scene and v = "ex_validator 0.3"
        and u = "ex_validator 0.3" and args = "[]" and kw = "[]" and scene = "[ex_left]"]
      step_counts_play_batches[where fw = ex_fw and sc = ex_late and v = "ex_validator 0.3"]
    by (simp add: ex_validator_def)
qed

text \<open>
  The claim as written fails: after a run with one \<open>play\<close> call the counter is 1,
  not 2.
\<close>

theorem final_scan_step_counterexample:
  "plays_executed (construct ex_clean) = 1 \<and>
   step (fst (validate ex_fw ex_clean (ex_validator 0.3))) = 1 \<and>
   step (fst (validate ex_fw ex_clean (ex_validator 0.3))) \<noteq> plays_executed (construct ex_clean) + 1"
  by code_simp

lemma validate_appends: "\<exists>new. tracker (fst (validate fw sc v)) = tracker v @ new"
  using validate_run[of fw sc v] by blast

lemma validate_all_append:
  "validate_all fw thr verb (scs1 @ scs2) tr =
     validate_all fw thr verb scs2 (validate_all fw thr verb scs1 tr)"
  by (simp add: validate_all_def)

lemma validate_all_appends: "\<exists>new. validate_all fw thr verb scs tr = tr @ new"
proof (induction scs arbitrary: tr)
  case Nil
  show ?case by (simp add: validate_all_def)
next
  case (Cons sc scs)
  let ?t1 = "tracker (fst (validate fw sc (new_validator sc tr thr verb)))"
  obtain n1 where n1: "?t1 = tr @ n1"
    using validate_appends[of fw sc "new_validator sc tr thr verb"]
    by (auto simp: new_validator_def)
  obtain n2 where n2: "validate_all fw thr verb scs ?t1 = ?t1 @ n2"
    using Cons.IH[of ?t1] by blast
  have "validate_all fw thr verb (sc # scs) tr = validate_all fw thr verb scs ?t1"
    by (simp add: validate_all_def)
  then show ?case using n1 n2 by simp
qed

lemma fold_add_issue:
  "fold (\<lambda>i. add_issue (fst i) (fst (snd i)) (fst (snd (snd i))) (snd (snd (snd i)))) added issues
     = issues @ added"
  by (induction added arbitrary: issues) (simp_all add: add_issue_def)

lemma report_run_prefixes:
  "report (validate_all fw thr verb scs []) \<longleftrightarrow>
     (\<forall>n \<le> length scs. validate_all fw thr verb (take n scs) [] = [])"
proof
  assume ok: "report (validate_all fw thr verb scs [])"
  show "\<forall>n \<le> length scs. validate_all fw thr verb (take n scs) [] = []"
  proof (intro allI impI)
    fix n assume "n \<le> length scs"
    obtain new where "validate_all fw thr verb (drop n scs) (validate_all fw thr verb (take n scs) [])
        = validate_all fw thr verb (take n scs) [] @ new"
      using validate_all_appends by blast
    then have "validate_all fw thr verb scs [] = validate_all fw thr verb (take n scs) [] @ new"
      using validate_all_append[of fw thr verb "take n scs" "drop n scs" "[]"] by simp
    then show "validate_all fw thr verb (take n scs) [] = []"
      using ok by (simp add: report_def split: if_splits)
  qed
next
  assume "\<forall>n \<le> length scs. validate_all fw thr verb (take n scs) [] = []"
  then have "validate_all fw thr verb (take (length scs) scs) [] = []" by blast
  then show "report (validate_all fw thr verb scs [])" by (simp add: report_def)
qed

lemma main_exit_zero:
  "main_exit fw thr verb scs = 0 \<longleftrightarrow> scs \<noteq> [] \<and> report (validate_all fw thr verb scs [])"
  by (simp add: main_exit_def Let_def)

text \<open>
  C8. \<open>report\<close> returns true iff the tracker is empty; \<open>add\<close> appends the issue it
  is given, so a sequence of additions to an empty tracker leaves exactly that sequence,
  duplicates included; the report on the tracker of a whole run is true iff the tracker
  was empty after every scene; and \<open>main\<close> exits with status 0 iff there was a scene
  to validate and that report is true.
\<close>

theorem report_iff_no_issues:
  "report issues = (issues = []) \<and>
   add_issue sev scene st msg issues = issues @ [(sev, scene, st, msg)] \<and>
   fold (\<lambda>i. add_issue (fst i) (fst (snd i)) (fst (snd (snd i))) (snd (snd (snd i)))) added []
     = added \<and>
   (report (validate_all fw thr verb scs []) \<longleftrightarrow>
      (\<forall>n \<le> length scs. validate_all fw thr verb (take n scs) [] = [])) \<and>
   (main_exit fw thr verb scs = 0 \<longleftrightarrow>
      scs \<noteq> [] \<and> report (validate_all fw thr verb scs [])) \<and>
   (main_exit fw thr verb scs = 0 \<or> main_exit fw thr verb scs = 1)"
  using report_run_prefixes[of fw thr verb scs] fold_add_issue[of added "[]"]
    main_exit_zero[of fw thr verb scs]
  by (simp add: report_def add_issue_def main_exit_def Let_def)

theorem report_iff_no_issues_witness:
  "report (validate_all ex_fw 0.3 False [ex_clean] []) \<and>
   (1 :: nat) \<le> length [ex_clean] \<and>
   validate_all ex_fw 0.3 False (take 1 [ex_clean]) [] = [] \<and>
   main_exit ex_fw 0.3 False [ex_clean] = 0 \<and>
   main_exit ex_fw 0.3 False [ex_clean, ex_scene] = 1 \<and>
   main_exit ex_fw 0.3 False [] = 1 \<and>
   \<not> report [(ERROR, py_str ''Scene1'', 1, CONSTRUCT_msg (py_str ''boom'')),
             (ERROR, py_str ''Scene1'', 1, CONSTRUCT_msg (py_str ''boom''))]"
proof -
  have a: "validate_all ex_fw 0.3 False [ex_clean] [] = []" by code_simp
  have b: "validate_all ex_fw 0.3 False [ex_clean, ex_scene] [] \<noteq> []" by code_simp
  have c: "report (validate_all ex_fw 0.3 False [ex_clean] [])"
    using a by (simp add: report_def)
  have d: "\<not> report (validate_all ex_fw 0.3 False [ex_clean, ex_scene] [])"
    using b by (simp add: report_def)
  note run = report_iff_no_issues[where fw = ex_fw and thr = "0.3" and verb = False
      and issues = "[]" and added = "[]" and sev = ERROR and scene = "[]" and st = 0
      and msg = "CONSTRUCT_msg []"]
  have e: "main_exit ex_fw 0.3 False [ex_clean, ex_scene] = 1"
    using d run[where scs = "[ex_clean, ex_scene]"] by auto
  have f: "main_exit ex_fw 0.3 False [] = 1"
    using run[where scs = "[]"] by auto
  show ?thesis
    using a c e f run[where scs = "[ex_clean]"]
      report_iff_no_issues[where fw = ex_fw and thr = "0.3" and verb = False and scs = "[]"
        and added = "[]" and sev = ERROR and scene = "[]" and st = 0 and msg = "CONSTRUCT_msg []"
        and issues = "[(ERROR, py_str ''Scene1'', 1, CONSTRUCT_msg (py_str ''boom'')),
          (ERROR, py_str ''Scene1'', 1, CONSTRUCT_msg (py_str ''boom''))]"]
    by simp
qed

end
